theory Spec2Isabelle
  imports Complex_Main "HOL-Library.Sublist"
begin

unbundle bit_operations_syntax

section \<open>Python values used by smart\_cloud\_tag\<close>

text \<open>
  A Python \<open>str\<close> is a sequence of Unicode code points; it is modelled as a list of
  natural numbers, so that \<open>length\<close> is Python's \<open>len\<close>. A \<open>bytes\<close> value is a list
  of numbers below 256. \<open>str\<close> turns an ASCII literal into such a list.
\<close>

type_synonym pystr = "nat list"
type_synonym pybytes = "nat list"

abbreviation (input) str :: "string \<Rightarrow> pystr" where
  "str s \<equiv> map of_char s"

text \<open>
  The code points for which \<open>str.isspace\<close> holds, which are the ones \<open>str.strip()\<close>
  removes: the Unicode white space of CPython's character database.
\<close>

definition py_isspace :: "nat \<Rightarrow> bool" where
  "py_isspace c \<longleftrightarrow>
     (9 \<le> c \<and> c \<le> 13) \<or> (28 \<le> c \<and> c \<le> 32) \<or> c = 133 \<or> c = 160 \<or> c = 5760 \<or>
     (8192 \<le> c \<and> c \<le> 8202) \<or> c = 8232 \<or> c = 8233 \<or> c = 8239 \<or> c = 8287 \<or> c = 12288"

text \<open>\<open>s.strip(chars)\<close> and \<open>s.strip()\<close>: drop a set of characters at both ends.\<close>

definition strip_where :: "(nat \<Rightarrow> bool) \<Rightarrow> pystr \<Rightarrow> pystr" where
  "strip_where P s = rev (dropWhile P (rev (dropWhile P s)))"

definition strip :: "pystr \<Rightarrow> pystr" where
  "strip s = strip_where py_isspace s"

definition strip_chars :: "pystr \<Rightarrow> pystr \<Rightarrow> pystr" where
  "strip_chars chars s = strip_where (\<lambda>c. c \<in> set chars) s"

text \<open>\<open>s.startswith(p)\<close>.\<close>

definition startswith :: "pystr \<Rightarrow> pystr \<Rightarrow> bool" where
  "startswith s p \<longleftrightarrow> take (length p) s = p"

text \<open>\<open>s.split(sep)\<close> for a separator of one character: always at least one piece.\<close>

fun split_on :: "nat \<Rightarrow> pystr \<Rightarrow> pystr list" where
  "split_on sep [] = [[]]"
| "split_on sep (c # cs) =
     (if c = sep then [] # split_on sep cs
      else (case split_on sep cs of
              [] \<Rightarrow> [[c]]
            | p # ps \<Rightarrow> (c # p) # ps))"

text \<open>\<open>str(n)\<close> for a non-negative integer.\<close>

function show_nat :: "nat \<Rightarrow> pystr" where
  "show_nat n = (if n < 10 then [48 + n] else show_nat (n div 10) @ [48 + n mod 10])"
  by pat_completeness auto
termination
  by (relation "measure id") auto

declare show_nat.simps [simp del]

text \<open>
  The exceptions of the package and the built-in ones its code can raise, each with its
  message where it has one. \<open>ValidationError\<close> is the error of pydantic, with the messages
  of the validators that failed. \<open>Unmodelled\<close> is not an exception of Python: it marks an
  input that the model of \<open>str.format\<close> below does not cover.
\<close>

datatype py_error =
    ValueError pystr
  | KeyError pystr
  | IndexError
  | UnicodeEncodeError nat
  | UnicodeDecodeError
  | SchemaValidationError pystr
  | FileProcessingError pystr
  | LLMError pystr
  | StorageError pystr
  | SmartCloudTagError pystr
  | ValidationError "pystr list"
  | Unmodelled pystr

section \<open>Response parser (utils.parse\_llm\_response)\<close>

definition prefixes_to_remove :: "pystr list" where
  "prefixes_to_remove =
     [str ''Generated tags:'', str ''Tags:'', str ''Values:'', str ''Here are the tags:'',
      str ''The tags are:'', str ''Based on the content:'']"

text \<open>One round of the loop over the prefixes.\<close>

definition remove_prefix :: "pystr \<Rightarrow> pystr \<Rightarrow> pystr" where
  "remove_prefix cleaned p =
     (if startswith cleaned p then strip (drop (length p) cleaned) else cleaned)"

definition general :: pystr where
  "general = str ''general''"

text \<open>The padding loop \<open>while len(values) < len(tag_keys): values.append("general")\<close>.\<close>

function pad_values :: "pystr list \<Rightarrow> nat \<Rightarrow> pystr list" where
  "pad_values vals n = (if length vals < n then pad_values (vals @ [general]) n else vals)"
  by pat_completeness auto
termination
  by (relation "measure (\<lambda>(vals, n). n - length vals)") auto

declare pad_values.simps [simp del]

text \<open>The argument of \<open>strip("\"'")\<close>: the double quote and the apostrophe.\<close>

definition quote_chars :: pystr where
  "quote_chars = [34, 39]"

text \<open>The values left after cleaning, splitting, trimming and dropping empty pieces.\<close>

definition response_values :: "pystr \<Rightarrow> pystr list" where
  "response_values response =
     (let cleaned = foldl remove_prefix (strip response) prefixes_to_remove;
          vals = map (\<lambda>v. strip_chars quote_chars (strip v)) (split_on 44 cleaned)
      in filter (\<lambda>v. v \<noteq> []) vals)"

definition parse_llm_response :: "pystr \<Rightarrow> pystr list \<Rightarrow> py_error + pystr list" where
  "parse_llm_response response tag_keys =
     (let vals = response_values response;
          vals = (if length vals < length tag_keys then pad_values vals (length tag_keys)
                  else if length vals > length tag_keys then take (length tag_keys) vals
                  else vals)
      in if length vals \<noteq> length tag_keys then
           Inl (ValueError (str ''Expected '' @ show_nat (length tag_keys) @ str '' values, got ''
                            @ show_nat (length vals)))
         else Inr vals)"

text \<open>
  The cleaning as the specification words it, written without the functions above:
  trimming drops a leading and a trailing run of characters; the pieces are the maximal
  runs between commas; the six known prefixes are tried in their order, each removed when
  the text starts with it (the text is trimmed again after a removal); every piece is
  trimmed of white space, then of the two quote characters; empty pieces are dropped.
\<close>

definition spec_trim :: "(nat \<Rightarrow> bool) \<Rightarrow> pystr \<Rightarrow> pystr" where
  "spec_trim P s =
     (let t = dropWhile P s in take (length t - length (takeWhile P (rev t))) t)"

function spec_pieces :: "pystr \<Rightarrow> pystr list" where
  "spec_pieces s =
     (case dropWhile (\<lambda>c. c \<noteq> 44) s of
        [] \<Rightarrow> [takeWhile (\<lambda>c. c \<noteq> 44) s]
      | comma # rest \<Rightarrow> takeWhile (\<lambda>c. c \<noteq> 44) s # spec_pieces rest)"
  by pat_completeness auto
termination
proof (relation "measure length")
  show "wf (measure length)" by simp
next
  fix s :: pystr and comma :: nat and rest :: pystr
  assume a: "dropWhile (\<lambda>c. c \<noteq> 44) s = comma # rest"
  have "length (dropWhile (\<lambda>c. c \<noteq> 44) s) \<le> length s" by (rule length_dropWhile_le)
  then show "(rest, s) \<in> measure length" unfolding a by simp
qed

declare spec_pieces.simps [simp del]

definition spec_known_prefixes :: "pystr list" where
  "spec_known_prefixes =
     [str ''Generated tags:'', str ''Tags:'', str ''Values:'', str ''Here are the tags:'',
      str ''The tags are:'', str ''Based on the content:'']"

definition spec_values :: "pystr \<Rightarrow> pystr list" where
  "spec_values response =
     (let cleaned =
            fold (\<lambda>p s. if prefix p s then spec_trim py_isspace (drop (length p) s) else s)
              spec_known_prefixes (spec_trim py_isspace response)
      in filter (\<lambda>v. v \<noteq> [])
           (map (\<lambda>piece. spec_trim (\<lambda>c. c = 34 \<or> c = 39) (spec_trim py_isspace piece))
              (spec_pieces cleaned)))"

section \<open>UTF-8 (\<open>str.encode("utf-8")\<close> and \<open>bytes.decode("utf-8", errors)\<close>)\<close>

text \<open>
  Encoding one code point. A surrogate (U+D800 to U+DFFF) can occur in a Python \<open>str\<close>,
  and encoding it raises \<open>UnicodeEncodeError\<close>. No \<open>str\<close> holds a value above
  U+10FFFF; the model rejects such a number the same way.
\<close>

definition utf8_encode_cp :: "nat \<Rightarrow> py_error + pybytes" where
  "utf8_encode_cp c =
     (if c < 0x80 then Inr [c]
      else if c < 0x800 then Inr [0xC0 + c div 64, 0x80 + c mod 64]
      else if 0xD800 \<le> c \<and> c \<le> 0xDFFF then Inl (UnicodeEncodeError c)
      else if c < 0x10000 then
        Inr [0xE0 + c div 4096, 0x80 + c div 64 mod 64, 0x80 + c mod 64]
      else if c < 0x110000 then
        Inr [0xF0 + c div 262144, 0x80 + c div 4096 mod 64, 0x80 + c div 64 mod 64,
             0x80 + c mod 64]
      else Inl (UnicodeEncodeError c))"

fun utf8_encode :: "pystr \<Rightarrow> py_error + pybytes" where
  "utf8_encode [] = Inr []"
| "utf8_encode (c # cs) =
     (case utf8_encode_cp c of
        Inl e \<Rightarrow> Inl e
      | Inr bs \<Rightarrow> (case utf8_encode cs of Inl e \<Rightarrow> Inl e | Inr rest \<Rightarrow> Inr (bs @ rest)))"

text \<open>
  One step of CPython's decoder at the head of a non-empty input: either a code point and
  the number of bytes it took, or an error and the number of bytes the error covers
  (one for an invalid start byte, the bytes accepted so far for an invalid continuation
  byte, everything that is left for an unexpected end of data).
\<close>

datatype utf8_step_result = Decoded nat nat | Invalid nat

definition is_continuation_byte :: "nat \<Rightarrow> bool" where
  "is_continuation_byte b \<longleftrightarrow> 0x80 \<le> b \<and> b < 0xC0"

fun utf8_step :: "pybytes \<Rightarrow> utf8_step_result" where
  "utf8_step [] = Invalid 0"
| "utf8_step (b0 # rest) =
     (if b0 < 0x80 then Decoded b0 1
      else if b0 < 0xC2 then Invalid 1
      else if b0 < 0xE0 then
        (case rest of
           [] \<Rightarrow> Invalid 1
         | b1 # _ \<Rightarrow>
             if \<not> is_continuation_byte b1 then Invalid 1
             else Decoded ((b0 - 0xC0) * 64 + (b1 - 0x80)) 2)
      else if b0 < 0xF0 then
        (case rest of
           [] \<Rightarrow> Invalid 1
         | b1 # r1 \<Rightarrow>
             if \<not> is_continuation_byte b1 \<or> (if b1 < 0xA0 then b0 = 0xE0 else b0 = 0xED)
             then Invalid 1
             else (case r1 of
                     [] \<Rightarrow> Invalid 2
                   | b2 # _ \<Rightarrow>
                       if \<not> is_continuation_byte b2 then Invalid 2
                       else Decoded ((b0 - 0xE0) * 4096 + (b1 - 0x80) * 64 + (b2 - 0x80)) 3))
      else if b0 < 0xF5 then
        (case rest of
           [] \<Rightarrow> Invalid 1
         | b1 # r1 \<Rightarrow>
             if \<not> is_continuation_byte b1 \<or> (if b1 < 0x90 then b0 = 0xF0 else b0 = 0xF4)
             then Invalid 1
             else (case r1 of
                     [] \<Rightarrow> Invalid 2
                   | b2 # r2 \<Rightarrow>
                       if \<not> is_continuation_byte b2 then Invalid 2
                       else (case r2 of
                               [] \<Rightarrow> Invalid 3
                             | b3 # _ \<Rightarrow>
                                 if \<not> is_continuation_byte b3 then Invalid 3
                                 else Decoded ((b0 - 0xF0) * 262144 + (b1 - 0x80) * 4096
                                               + (b2 - 0x80) * 64 + (b3 - 0x80)) 4)))
      else Invalid 1)"

datatype errors_mode = Strict | Ignore

text \<open>
  Decoding: \<open>Strict\<close> raises at the first error, \<open>Ignore\<close> skips the bytes the error
  covers and goes on.
\<close>

function utf8_decode :: "errors_mode \<Rightarrow> pybytes \<Rightarrow> py_error + pystr" where
  "utf8_decode m [] = Inr []"
| "utf8_decode m (b # bs) =
     (case utf8_step (b # bs) of
        Decoded c n \<Rightarrow>
          (case utf8_decode m (drop n (b # bs)) of Inl e \<Rightarrow> Inl e | Inr cs \<Rightarrow> Inr (c # cs))
      | Invalid k \<Rightarrow>
          (case m of
             Strict \<Rightarrow> Inl UnicodeDecodeError
           | Ignore \<Rightarrow> utf8_decode m (drop k (b # bs))))"
  by pat_completeness auto
termination
  by (relation "measure (\<lambda>(m, bs). length bs)") (auto split: if_splits list.splits)

section \<open>Truncation (utils.truncate\_content)\<close>

text \<open>The slice \<open>bs[:n]\<close>; a negative \<open>n\<close> counts from the end.\<close>

definition slice_to :: "int \<Rightarrow> 'a list \<Rightarrow> 'a list" where
  "slice_to n xs = (if 0 \<le> n then take (nat n) xs else take (length xs - nat (- n)) xs)"

text \<open>
  The loop \<open>while truncated_bytes and truncated_bytes[-1] & 0xC0 == 0x80\<close>, which drops the
  last byte each round.
\<close>

function strip_continuation :: "pybytes \<Rightarrow> pybytes" where
  "strip_continuation truncated_bytes =
     (if truncated_bytes \<noteq> [] \<and> last truncated_bytes AND 0xC0 = 0x80
      then strip_continuation (butlast truncated_bytes)
      else truncated_bytes)"
  by pat_completeness auto
termination
  by (relation "measure length") (auto simp: length_greater_0_conv [symmetric] simp del: length_greater_0_conv)

declare strip_continuation.simps [simp del]

definition truncate_content :: "pystr \<Rightarrow> int \<Rightarrow> py_error + pystr" where
  "truncate_content content max_bytes =
     (case utf8_encode content of
        Inl e \<Rightarrow> Inl e
      | Inr content_bytes \<Rightarrow>
          if int (length content_bytes) \<le> max_bytes then Inr content
          else (let truncated_bytes = slice_to max_bytes content_bytes
                in case utf8_decode Strict truncated_bytes of
                     Inr t \<Rightarrow> Inr t
                   | Inl _ \<Rightarrow> utf8_decode Ignore (strip_continuation truncated_bytes)))"

section \<open>Dictionaries and text helpers\<close>

text \<open>
  A Python \<open>dict\<close> keeps its keys in insertion order and holds each key once: it is an
  association list whose keys are distinct. \<open>d[k] = v\<close> replaces the value of a key that
  is present, in place, and appends a new key at the end.
\<close>

type_synonym ('k, 'v) dict = "('k \<times> 'v) list"

fun dict_set :: "('k, 'v) dict \<Rightarrow> 'k \<Rightarrow> 'v \<Rightarrow> ('k, 'v) dict" where
  "dict_set [] k v = [(k, v)]"
| "dict_set ((k', v') # d) k v = (if k' = k then (k, v) # d else (k', v') # dict_set d k v)"

text \<open>\<open>d.update(other)\<close>.\<close>

definition dict_update :: "('k, 'v) dict \<Rightarrow> ('k, 'v) dict \<Rightarrow> ('k, 'v) dict" where
  "dict_update d other = foldl (\<lambda>acc (k, v). dict_set acc k v) d other"

text \<open>\<open>sep.join(xs)\<close>.\<close>

fun join :: "pystr \<Rightarrow> pystr list \<Rightarrow> pystr" where
  "join sep [] = []"
| "join sep [x] = x"
| "join sep (x # y # ys) = x @ sep @ join sep (y # ys)"

text \<open>\<open>not s or not s.strip()\<close>: the string is empty or white space only.\<close>

definition is_blank :: "pystr \<Rightarrow> bool" where
  "is_blank s \<longleftrightarrow> s = [] \<or> strip s = []"

text \<open>
  \<open>s.isalnum()\<close>: the string is not empty and every character is alphanumeric. For an ASCII
  character that is a letter or a digit; for the others it is decided by the interpreter's
  Unicode tables, which are the parameter \<open>uni\<close>.
\<close>

definition ascii_alnum :: "nat \<Rightarrow> bool" where
  "ascii_alnum c \<longleftrightarrow> (48 \<le> c \<and> c \<le> 57) \<or> (65 \<le> c \<and> c \<le> 90) \<or> (97 \<le> c \<and> c \<le> 122)"

definition isalnum :: "(nat \<Rightarrow> bool) \<Rightarrow> pystr \<Rightarrow> bool" where
  "isalnum uni s \<longleftrightarrow> s \<noteq> [] \<and> list_all (\<lambda>c. if c < 128 then ascii_alnum c else uni c) s"

text \<open>\<open>s.replace(c, "")\<close> for one character \<open>c\<close>.\<close>

definition remove_char :: "nat \<Rightarrow> pystr \<Rightarrow> pystr" where
  "remove_char c s = filter (\<lambda>x. x \<noteq> c) s"

section \<open>Schema validation and merge (schemas.py, models.py)\<close>

type_synonym tags = "(pystr, pystr) dict"

text \<open>The tag schema: each key with its allowed values, or \<open>None\<close> when the model infers.\<close>

type_synonym schema = "(pystr, pystr list option) dict"

record tag_limits =
  max_tags :: nat
  max_key :: nat
  max_value :: nat

definition get_provider_tag_limits :: "pystr \<Rightarrow> py_error + tag_limits" where
  "get_provider_tag_limits provider =
     (if provider = str ''aws'' then Inr \<lparr>max_tags = 10, max_key = 128, max_value = 256\<rparr>
      else if provider = str ''azure'' then Inr \<lparr>max_tags = 10, max_key = 128, max_value = 256\<rparr>
      else if provider = str ''gcp'' then Inr \<lparr>max_tags = 64, max_key = 128, max_value = 1024\<rparr>
      else Inl (SchemaValidationError (str ''Unsupported storage provider: '' @ provider)))"

text \<open>
  The \<open>TaggingConfig\<close> model (models.py). Building one runs its validators; pydantic
  gathers the messages of those that fail into one \<open>ValidationError\<close>, and there is no
  configuration when any fails. So a configuration built this way has from one to nine
  tag keys and a positive \<open>max_bytes\<close>.
\<close>

record TaggingConfig =
  cfg_llm_model :: pystr
  cfg_storage_uri :: pystr
  cfg_tags :: schema
  cfg_max_bytes :: int





text \<open>The body of the loop over the keys of the schema.\<close>

definition validate_tag_key :: "(nat \<Rightarrow> bool) \<Rightarrow> tag_limits \<Rightarrow> pystr \<Rightarrow> py_error + unit" where
  "validate_tag_key uni limits key =
     (if is_blank key then Inl (SchemaValidationError (str ''Tag keys cannot be empty''))
      else if length key > max_key limits then
        Inl (SchemaValidationError
              (str ''Tag key '' @ [39] @ key @ [39] @ str '' exceeds ''
               @ show_nat (max_key limits) @ str '' character limit''))
      else if \<not> isalnum uni (remove_char 95 (remove_char 45 key)) then
        Inl (SchemaValidationError
              (str ''Tag key '' @ [39] @ key @ [39] @ str '' contains invalid characters''))
      else Inr ())"

fun validate_tag_keys :: "(nat \<Rightarrow> bool) \<Rightarrow> tag_limits \<Rightarrow> pystr list \<Rightarrow> py_error + unit" where
  "validate_tag_keys uni limits [] = Inr ()"
| "validate_tag_keys uni limits (key # keys) =
     (case validate_tag_key uni limits key of
        Inl e \<Rightarrow> Inl e
      | Inr _ \<Rightarrow> validate_tag_keys uni limits keys)"

definition validate_tagging_config ::
  "(nat \<Rightarrow> bool) \<Rightarrow> TaggingConfig \<Rightarrow> pystr \<Rightarrow> py_error + unit" where
  "validate_tagging_config uni config provider =
     (case get_provider_tag_limits provider of
        Inl e \<Rightarrow> Inl e
      | Inr limits \<Rightarrow>
          if length (cfg_tags config) \<ge> max_tags limits then
            Inl (SchemaValidationError
                  (str ''Maximum '' @ show_nat (max_tags limits) @ str '' tags per object''))
          else if length (cfg_tags config) \<noteq> length (remdups (map fst (cfg_tags config))) then
            Inl (SchemaValidationError (str ''Tag keys must be unique''))
          else validate_tag_keys uni limits (map fst (cfg_tags config)))"

text \<open>The loop of \<open>validate_tag_values\<close> over the values, each with the key of its index.\<close>

fun validate_values_loop :: "tag_limits \<Rightarrow> (pystr \<times> pystr) list \<Rightarrow> py_error + unit" where
  "validate_values_loop limits [] = Inr ()"
| "validate_values_loop limits ((key, val) # rest) =
     (if is_blank val then
        Inl (SchemaValidationError
              (str ''Tag value for '' @ [39] @ key @ [39] @ str '' cannot be empty''))
      else if length val > max_value limits then
        Inl (SchemaValidationError
              (str ''Tag value for '' @ [39] @ key @ [39] @ str '' exceeds ''
               @ show_nat (max_value limits) @ str '' character limit''))
      else validate_values_loop limits rest)"

definition validate_tag_values :: "pystr list \<Rightarrow> pystr list \<Rightarrow> pystr \<Rightarrow> py_error + unit" where
  "validate_tag_values vals tag_keys provider =
     (case get_provider_tag_limits provider of
        Inl e \<Rightarrow> Inl e
      | Inr limits \<Rightarrow>
          if length vals \<noteq> length tag_keys then
            Inl (SchemaValidationError
                  (str ''Expected '' @ show_nat (length tag_keys) @ str '' values, got ''
                   @ show_nat (length vals)))
          else validate_values_loop limits (zip tag_keys vals))"

definition create_tag_mapping :: "pystr list \<Rightarrow> pystr list \<Rightarrow> pystr \<Rightarrow> py_error + tags" where
  "create_tag_mapping tag_keys vals provider =
     (case validate_tag_values vals tag_keys provider of
        Inl e \<Rightarrow> Inl e
      | Inr _ \<Rightarrow>
          Inr (foldl (\<lambda>tag_mapping (key, val). dict_set tag_mapping key (strip val)) []
                 (zip tag_keys vals)))"

fun validate_existing_loop :: "tag_limits \<Rightarrow> tags \<Rightarrow> py_error + unit" where
  "validate_existing_loop limits [] = Inr ()"
| "validate_existing_loop limits ((key, val) # rest) =
     (if is_blank key then Inl (SchemaValidationError (str ''Tag key cannot be empty''))
      else if length key > max_key limits then
        Inl (SchemaValidationError
              (str ''Tag key '' @ [39] @ key @ [39] @ str '' exceeds ''
               @ show_nat (max_key limits) @ str '' character limit''))
      else if is_blank val then
        Inl (SchemaValidationError
              (str ''Tag value for '' @ [39] @ key @ [39] @ str '' cannot be empty''))
      else if length val > max_value limits then
        Inl (SchemaValidationError
              (str ''Tag value for '' @ [39] @ key @ [39] @ str '' exceeds ''
               @ show_nat (max_value limits) @ str '' character limit''))
      else validate_existing_loop limits rest)"

definition validate_existing_tags :: "tags \<Rightarrow> pystr \<Rightarrow> py_error + unit" where
  "validate_existing_tags tgs provider =
     (case get_provider_tag_limits provider of
        Inl e \<Rightarrow> Inl e
      | Inr limits \<Rightarrow>
          if length tgs > max_tags limits then
            Inl (SchemaValidationError
                  (str ''Object has '' @ show_nat (length tgs)
                   @ str '' tags, exceeding the limit of '' @ show_nat (max_tags limits)))
          else validate_existing_loop limits tgs)"

definition merge_and_validate_tags ::
  "tags \<Rightarrow> tags \<Rightarrow> pystr list \<Rightarrow> pystr \<Rightarrow> py_error + tags" where
  "merge_and_validate_tags existing_tags new_tags tag_keys provider =
     (case get_provider_tag_limits provider of
        Inl e \<Rightarrow> Inl e
      | Inr limits \<Rightarrow>
          (case validate_existing_tags existing_tags provider of
             Inl e \<Rightarrow> Inl e
           | Inr _ \<Rightarrow>
               (case validate_tag_values (map snd new_tags) tag_keys provider of
                  Inl e \<Rightarrow> Inl e
                | Inr _ \<Rightarrow>
                    (let merged = filter (\<lambda>(k, v). k \<notin> set tag_keys) existing_tags;
                         merged = dict_update merged new_tags
                     in if length merged > max_tags limits then
                          Inl (SchemaValidationError
                                (str ''Total tags ('' @ show_nat (length merged)
                                 @ str '') would exceed the limit of ''
                                 @ show_nat (max_tags limits)))
                        else Inr merged))))"


definition valid_value :: "tag_limits \<Rightarrow> pystr \<Rightarrow> bool" where
  "valid_value limits val \<longleftrightarrow> \<not> is_blank val \<and> length val \<le> max_value limits"

definition valid_entry :: "tag_limits \<Rightarrow> pystr \<times> pystr \<Rightarrow> bool" where
  "valid_entry limits kv \<longleftrightarrow>
     \<not> is_blank (fst kv) \<and> length (fst kv) \<le> max_key limits \<and> valid_value limits (snd kv)"



section \<open>Custom prompt template (utils.format\_custom\_llm\_prompt)\<close>

text \<open>\<open>p in s\<close> for strings: \<open>p\<close> occurs in \<open>s\<close> at some position.\<close>

fun contains :: "pystr \<Rightarrow> pystr \<Rightarrow> bool" where
  "contains [] p = (p = [])"
| "contains (c # cs) p = (startswith (c # cs) p \<or> contains cs p)"

definition required_placeholders :: "pystr list" where
  "required_placeholders = [str ''{tags}'', str ''{content}'', str ''{filename}'']"

text \<open>
  \<open>repr\<close> of a list of strings, as an f-string prints it, for strings without quotes,
  backslashes or unprintable characters (the placeholders are such strings).
\<close>

definition repr_str_list :: "pystr list \<Rightarrow> pystr" where
  "repr_str_list ss = [91] @ join (str '', '') (map (\<lambda>s. [39] @ s @ [39]) ss) @ [93]"

definition missing_placeholders_message :: "pystr list \<Rightarrow> pystr" where
  "missing_placeholders_message missing_placeholders =
     str ''Custom prompt template is missing required placeholders: ''
     @ repr_str_list missing_placeholders
     @ str ''. Required placeholders: '' @ repr_str_list required_placeholders"

text \<open>
  \<open>template.format(**kwargs)\<close> with keyword arguments whose values are already text.
  Literal text is copied; \<open>{{\<close> and \<open>}}\<close> give one brace; a single \<open>}\<close>, or a \<open>{\<close> that
  is not closed, raises \<open>ValueError\<close>; a field \<open>{name}\<close> is looked up among the keyword
  arguments and raises \<open>KeyError\<close> when absent; an empty or numeric field asks for a
  positional argument, of which there is none, and raises \<open>IndexError\<close>.
  The rest of the format mini-language (attribute and index access, conversions, format
  specifications, non-ASCII field names) is outside this model: such a field gives the
  outcome \<open>Unmodelled\<close>, from which nothing is concluded.
\<close>

definition special_field_char :: "nat \<Rightarrow> bool" where
  "special_field_char c \<longleftrightarrow> c = 123 \<or> c = 91 \<or> c = 46 \<or> c = 33 \<or> c = 58 \<or> 128 \<le> c"

definition is_ascii_digit :: "nat \<Rightarrow> bool" where
  "is_ascii_digit c \<longleftrightarrow> 48 \<le> c \<and> c \<le> 57"

definition lookup_field :: "(pystr, pystr) dict \<Rightarrow> pystr \<Rightarrow> py_error + pystr" where
  "lookup_field kwargs field =
     (if list_all is_ascii_digit field then
        (if length field \<le> 18 then Inl IndexError else Inl (Unmodelled field))
      else (case map_of kwargs field of
              None \<Rightarrow> Inl (KeyError field)
            | Some v \<Rightarrow> Inr v))"

definition emit :: "pystr \<Rightarrow> py_error + pystr \<Rightarrow> py_error + pystr" where
  "emit text r = (case r of Inl e \<Rightarrow> Inl e | Inr out \<Rightarrow> Inr (text @ out))"

text \<open>
  The scanner: the second argument is \<open>None\<close> in literal text, and \<open>Some acc\<close> inside a
  field whose characters so far are \<open>acc\<close>.
\<close>

fun py_format_from :: "(pystr, pystr) dict \<Rightarrow> pystr option \<Rightarrow> pystr \<Rightarrow> py_error + pystr" where
  "py_format_from kwargs None [] = Inr []"
| "py_format_from kwargs None (c # cs) =
     (if c = 123 then
        (case cs of
           [] \<Rightarrow> Inl (ValueError (str ''Single '' @ [39, 123, 39]
                                   @ str '' encountered in format string''))
         | d # ds \<Rightarrow>
             if d = 123 then emit [123] (py_format_from kwargs None ds)
             else py_format_from kwargs (Some []) cs)
      else if c = 125 then
        (case cs of
           [] \<Rightarrow> Inl (ValueError (str ''Single '' @ [39, 125, 39]
                                   @ str '' encountered in format string''))
         | d # ds \<Rightarrow>
             if d = 125 then emit [125] (py_format_from kwargs None ds)
             else Inl (ValueError (str ''Single '' @ [39, 125, 39]
                                   @ str '' encountered in format string'')))
      else emit [c] (py_format_from kwargs None cs))"
| "py_format_from kwargs (Some acc) [] =
     Inl (ValueError (str ''expected '' @ [39, 125, 39] @ str '' before end of string''))"
| "py_format_from kwargs (Some acc) (c # cs) =
     (if c = 125 then
        (case lookup_field kwargs acc of
           Inl e \<Rightarrow> Inl e
         | Inr v \<Rightarrow> emit v (py_format_from kwargs None cs))
      else if special_field_char c then Inl (Unmodelled (acc @ [c]))
      else py_format_from kwargs (Some (acc @ [c])) cs)"

definition py_format :: "(pystr, pystr) dict \<Rightarrow> pystr \<Rightarrow> py_error + pystr" where
  "py_format kwargs template = py_format_from kwargs None template"

text \<open>
  The schema is passed to \<open>format\<close> as a dictionary and printed by \<open>str\<close>; the model
  takes that text, \<open>tags_text\<close>, in its place.
\<close>

definition format_custom_llm_prompt ::
  "pystr \<Rightarrow> pystr \<Rightarrow> pystr \<Rightarrow> pystr \<Rightarrow> py_error + pystr" where
  "format_custom_llm_prompt custom_template tags_text content_preview filename =
     (let missing_placeholders =
            filter (\<lambda>placeholder. \<not> contains custom_template placeholder) required_placeholders
      in if missing_placeholders \<noteq> [] then
           Inl (ValueError (missing_placeholders_message missing_placeholders))
         else py_format [(str ''tags'', tags_text), (str ''content'', content_preview),
                         (str ''filename'', filename)] custom_template)"

text \<open>
  The reading of the specification: the template with each of the three tokens replaced,
  in one pass from the left, and the templates whose only braces are those of the tokens.
\<close>

function replace_tokens :: "pystr \<Rightarrow> pystr \<Rightarrow> pystr \<Rightarrow> pystr \<Rightarrow> pystr" where
  "replace_tokens tg ct fn [] = []"
| "replace_tokens tg ct fn (c # cs) =
     (if startswith (c # cs) (str ''{tags}'') then tg @ replace_tokens tg ct fn (drop 6 (c # cs))
      else if startswith (c # cs) (str ''{content}'')
        then ct @ replace_tokens tg ct fn (drop 9 (c # cs))
      else if startswith (c # cs) (str ''{filename}'')
        then fn @ replace_tokens tg ct fn (drop 10 (c # cs))
      else c # replace_tokens tg ct fn cs)"
  by pat_completeness auto
termination
  by (relation "measure (\<lambda>(tg, ct, fn, t). length t)") auto

function braces_in_tokens_only :: "pystr \<Rightarrow> bool" where
  "braces_in_tokens_only [] = True"
| "braces_in_tokens_only (c # cs) =
     (if startswith (c # cs) (str ''{tags}'') then braces_in_tokens_only (drop 6 (c # cs))
      else if startswith (c # cs) (str ''{content}'') then braces_in_tokens_only (drop 9 (c # cs))
      else if startswith (c # cs) (str ''{filename}'')
        then braces_in_tokens_only (drop 10 (c # cs))
      else c \<noteq> 123 \<and> c \<noteq> 125 \<and> braces_in_tokens_only cs)"
  by pat_completeness auto
termination
  by (relation "measure length") auto

section \<open>Content decoder (utils.parse\_file\_content)\<close>

datatype FileType = TXT | MD | JSON | CSV

definition FileType_value :: "FileType \<Rightarrow> pystr" where
  "FileType_value ft =
     (case ft of TXT \<Rightarrow> str ''txt'' | MD \<Rightarrow> str ''md'' | JSON \<Rightarrow> str ''json'' | CSV \<Rightarrow> str ''csv'')"

text \<open>
  The library calls the package relies on are parameters: \<open>json_reformat\<close> stands for
  \<open>json.dumps(json.loads(text), indent=2, ensure_ascii=False)\<close>, \<open>csv_rows\<close> for
  \<open>list(csv.reader(io.StringIO(text)))\<close>, and \<open>exc_str\<close> for \<open>str(e)\<close> of an exception.
\<close>

record library =
  json_reformat :: "pystr \<Rightarrow> py_error + pystr"
  csv_rows :: "pystr \<Rightarrow> py_error + pystr list list"
  exc_str :: "py_error \<Rightarrow> pystr"

text \<open>The lines of the CSV rendering; \<open>i\<close> is the index \<open>enumerate\<close> gives the row.\<close>

fun csv_lines :: "nat \<Rightarrow> pystr list list \<Rightarrow> pystr list" where
  "csv_lines i [] = []"
| "csv_lines i (row # rows) =
     (if i = 0 then str ''Headers: '' @ join (str '', '') row
      else str ''Row '' @ show_nat i @ str '': '' @ join (str '', '') row)
     # csv_lines (Suc i) rows"

definition parse_file_content :: "library \<Rightarrow> pybytes \<Rightarrow> FileType \<Rightarrow> py_error + pystr" where
  "parse_file_content lib content_bytes file_type =
     (let failed = (\<lambda>e. Inl (FileProcessingError
                      (str ''Failed to parse '' @ FileType_value file_type @ str '' file: ''
                       @ exc_str lib e)))
      in case utf8_decode Strict content_bytes of
           Inl e \<Rightarrow> failed e
         | Inr text_content \<Rightarrow>
             (case file_type of
                JSON \<Rightarrow>
                  (case json_reformat lib text_content of
                     Inl e \<Rightarrow> failed e
                   | Inr pretty \<Rightarrow> Inr pretty)
              | CSV \<Rightarrow>
                  (case csv_rows lib text_content of
                     Inl e \<Rightarrow> failed e
                   | Inr rows \<Rightarrow> Inr (join [10] (csv_lines 0 rows)))
              | _ \<Rightarrow> Inr text_content))"

section \<open>Orchestrator (core.py, models.py)\<close>

datatype ProcessingMode = PREVIEW | APPLY

record ObjectTags =
  existing :: tags
  proposed :: "tags option"
  applied :: "tags option"
  skipped_reason :: "pystr option"

definition create_object_tags_result ::
  "tags \<Rightarrow> tags option \<Rightarrow> tags option \<Rightarrow> pystr option \<Rightarrow> ObjectTags" where
  "create_object_tags_result existing_tags proposed_tags applied_tags reason =
     \<lparr>existing = existing_tags, proposed = proposed_tags, applied = applied_tags,
      skipped_reason = reason\<rparr>"

text \<open>
  \<open>p / n\<close> for two non-negative integers with \<open>n\<close> positive and \<open>p\<close> at most \<open>n\<close>:
  Python's true division gives a float, the double nearest to the quotient, ties going to
  the even significand. The float is read as the real number it denotes. \<open>l\<close> is the
  binary exponent of the quotient (the quotient lies from \<open>2^l\<close> up to \<open>2^(l + 1)\<close>), \<open>e\<close>
  the exponent of the last place of its double (never below \<open>-1074\<close>, the last place of
  the subnormal doubles), \<open>m\<close> the significand, the quotient over \<open>2^e\<close> rounded to an
  integer. (With \<open>p\<close> at most \<open>n\<close> the quotient is at most 1, so the division never
  overflows; the counts of a run are so.)
\<close>

function bit_length :: "nat \<Rightarrow> nat" where
  "bit_length n = (if n = 0 then 0 else Suc (bit_length (n div 2)))"
  by pat_completeness auto
termination
  by (relation "measure id") auto

declare bit_length.simps [simp del]

definition py_truediv :: "nat \<Rightarrow> nat \<Rightarrow> real" where
  "py_truediv p n =
     (if p = 0 then 0
      else
        (let d = int (bit_length p) - int (bit_length n);
             l = (if (if 0 \<le> d then n * 2 ^ nat d \<le> p else n \<le> p * 2 ^ nat (- d))
                  then d else d - 1);
             e = max (l - 52) (- 1074);
             num = (if e < 0 then p * 2 ^ nat (- e) else p);
             den = (if e < 0 then n else n * 2 ^ nat e);
             f = num div den;
             r = num mod den;
             m = (if 2 * r < den then f
                  else if den < 2 * r then f + 1
                  else if even f then f else f + 1)
         in if e < 0 then real m / 2 ^ nat (- e) else real m * 2 ^ nat e))"

text \<open>
  The summary dictionary. The success rate is the float \<open>processed / total_objects\<close>, or
  the integer 0 when there is no record.
\<close>

record summary_stats =
  total_objects :: nat
  processed :: nat
  skipped :: nat
  applied_count :: nat
  success_rate :: real

datatype summary = Summary_empty | Summary_message pystr | Summary_stats summary_stats

record TaggingResult =
  mode :: ProcessingMode
  config :: TaggingConfig
  results :: "(pystr, ObjectTags) dict"
  summary :: summary

definition add_result :: "TaggingResult \<Rightarrow> pystr \<Rightarrow> ObjectTags \<Rightarrow> TaggingResult" where
  "add_result result uri object_tags = result\<lparr>results := dict_set (results result) uri object_tags\<rparr>"

definition get_summary_stats :: "TaggingResult \<Rightarrow> summary_stats" where
  "get_summary_stats result =
     (let total = length (results result);
          n_processed = length (filter (\<lambda>(uri, t). proposed t \<noteq> None) (results result));
          n_skipped = length (filter (\<lambda>(uri, t). skipped_reason t \<noteq> None) (results result));
          n_applied = length (filter (\<lambda>(uri, t). applied t \<noteq> None) (results result))
      in \<lparr>total_objects = total, processed = n_processed, skipped = n_skipped,
          applied_count = n_applied,
          success_rate = (if total > 0 then py_truediv n_processed total else 0)\<rparr>)"

text \<open>
  The storage backend and the LLM backend are external: every operation takes the state of
  the outside world and returns a result or an exception, and the new state.
\<close>

record LLMRequest =
  req_content :: pystr
  req_tags :: schema
  req_filename :: pystr
  req_custom_prompt_template :: "pystr option"

record 'w storage_provider =
  list_objects :: "'w \<Rightarrow> (py_error + pystr list) \<times> 'w"
  is_supported_file_type :: "pystr \<Rightarrow> 'w \<Rightarrow> (py_error + bool) \<times> 'w"
  get_object_tags :: "pystr \<Rightarrow> 'w \<Rightarrow> (py_error + tags) \<times> 'w"
  get_object_content :: "pystr \<Rightarrow> int \<Rightarrow> 'w \<Rightarrow> (py_error + pybytes \<times> FileType) \<times> 'w"
  set_object_tags :: "pystr \<Rightarrow> tags \<Rightarrow> 'w \<Rightarrow> (py_error + unit) \<times> 'w"

record 'w llm_provider =
  generate_tags :: "LLMRequest \<Rightarrow> 'w \<Rightarrow> (py_error + pystr list) \<times> 'w"

record 'w tagger =
  storage_provider :: "'w storage_provider"
  llm_provider :: "'w llm_provider"
  tagger_config :: TaggingConfig
  storage_provider_type :: pystr
  custom_prompt_template :: "pystr option"
  lib :: library

text \<open>
  The state of a run: the outside world, and a log of the calls of \<open>set_object_tags\<close>
  made so far (the log is there to state which writes a run performs).
\<close>

record 'w run_state =
  world :: 'w
  set_tags_log :: "(pystr \<times> tags) list"

text \<open>Sequencing of steps that can raise.\<close>

definition and_then ::
  "('e + 'a) \<times> 's \<Rightarrow> ('a \<Rightarrow> 's \<Rightarrow> ('e + 'b) \<times> 's) \<Rightarrow> ('e + 'b) \<times> 's" where
  "and_then r f = (case r of (Inl e, s) \<Rightarrow> (Inl e, s) | (Inr a, s) \<Rightarrow> f a s)"

text \<open>
  The body of the \<open>try\<close> of one object, up to the branch on the mode: either the object is
  unsupported, or its existing tags and the proposed tags are known.
\<close>

datatype attempt = Unsupported | Proposed tags tags

definition attempt_object ::
  "'w tagger \<Rightarrow> int \<Rightarrow> pystr \<Rightarrow> 'w \<Rightarrow> (py_error + attempt) \<times> 'w" where
  "attempt_object self process_max_bytes obj_key w =
     and_then (is_supported_file_type (storage_provider self) obj_key w) (\<lambda>supported w.
       if \<not> supported then (Inr Unsupported, w)
       else
     and_then (get_object_tags (storage_provider self) obj_key w) (\<lambda>existing_tags w.
     and_then (get_object_content (storage_provider self) obj_key process_max_bytes w)
       (\<lambda>(content_bytes, file_type) w.
     and_then (parse_file_content (lib self) content_bytes file_type, w) (\<lambda>text_content w.
     and_then (truncate_content text_content process_max_bytes, w) (\<lambda>truncated_content w.
     and_then (generate_tags (llm_provider self)
                 \<lparr>req_content = truncated_content, req_tags = cfg_tags (tagger_config self),
                  req_filename = obj_key,
                  req_custom_prompt_template = custom_prompt_template self\<rparr> w)
       (\<lambda>llm_response_tags w.
     and_then (create_tag_mapping (map fst (cfg_tags (tagger_config self))) llm_response_tags
                 (storage_provider_type self), w) (\<lambda>proposed_tags w.
       (Inr (Proposed existing_tags proposed_tags), w))))))))"

text \<open>The branch of Apply mode, with its own \<open>try\<close>.\<close>

definition apply_object ::
  "'w tagger \<Rightarrow> pystr \<Rightarrow> tags \<Rightarrow> tags \<Rightarrow> 'w run_state \<Rightarrow> ObjectTags \<times> 'w run_state" where
  "apply_object self obj_key existing_tags proposed_tags st =
     (case merge_and_validate_tags existing_tags proposed_tags
             (map fst (cfg_tags (tagger_config self))) (storage_provider_type self) of
        Inl e \<Rightarrow>
          (create_object_tags_result existing_tags (Some proposed_tags) None
             (Some (str ''Failed to apply tags: '' @ exc_str (lib self) e)), st)
      | Inr final_tags \<Rightarrow>
          (case set_object_tags (storage_provider self) obj_key final_tags (world st) of
             (r, w) \<Rightarrow>
               (let st' = st\<lparr>world := w, set_tags_log := set_tags_log st @ [(obj_key, final_tags)]\<rparr>
                in case r of
                     Inl e \<Rightarrow>
                       (create_object_tags_result existing_tags (Some proposed_tags) None
                          (Some (str ''Failed to apply tags: '' @ exc_str (lib self) e)), st')
                   | Inr _ \<Rightarrow>
                       (create_object_tags_result existing_tags (Some proposed_tags)
                          (Some final_tags) None, st'))))"

text \<open>One round of the loop over the objects: the record of the object and the new state.\<close>

definition process_object ::
  "'w tagger \<Rightarrow> ProcessingMode \<Rightarrow> int \<Rightarrow> pystr \<Rightarrow> 'w run_state \<Rightarrow> ObjectTags \<times> 'w run_state" where
  "process_object self pmode process_max_bytes obj_key st =
     (case attempt_object self process_max_bytes obj_key (world st) of
        (Inl e, w) \<Rightarrow>
          (create_object_tags_result [] None None
             (Some (str ''Processing error: '' @ exc_str (lib self) e)), st\<lparr>world := w\<rparr>)
      | (Inr Unsupported, w) \<Rightarrow>
          (create_object_tags_result [] None None (Some (str ''Unsupported file type'')),
           st\<lparr>world := w\<rparr>)
      | (Inr (Proposed existing_tags proposed_tags), w) \<Rightarrow>
          (case pmode of
             PREVIEW \<Rightarrow>
               (create_object_tags_result existing_tags (Some proposed_tags) None None,
                st\<lparr>world := w\<rparr>)
           | APPLY \<Rightarrow> apply_object self obj_key existing_tags proposed_tags (st\<lparr>world := w\<rparr>)))"

fun process_loop ::
  "'w tagger \<Rightarrow> ProcessingMode \<Rightarrow> int \<Rightarrow> pystr list \<Rightarrow> TaggingResult \<Rightarrow> 'w run_state
     \<Rightarrow> TaggingResult \<times> 'w run_state" where
  "process_loop self pmode process_max_bytes [] result st = (result, st)"
| "process_loop self pmode process_max_bytes (obj_key # objects) result st =
     (case process_object self pmode process_max_bytes obj_key st of
        (object_tags, st') \<Rightarrow>
          process_loop self pmode process_max_bytes objects
            (add_result result obj_key object_tags) st')"

definition process_objects ::
  "'w tagger \<Rightarrow> ProcessingMode \<Rightarrow> int option \<Rightarrow> 'w run_state
     \<Rightarrow> (py_error + TaggingResult) \<times> 'w run_state" where
  "process_objects self pmode max_bytes_override st =
     (let process_max_bytes =
            (case max_bytes_override of
               None \<Rightarrow> cfg_max_bytes (tagger_config self)
             | Some n \<Rightarrow> if n = 0 then cfg_max_bytes (tagger_config self) else n);
          result = \<lparr>mode = pmode, config = tagger_config self, results = [],
                    summary = Summary_empty\<rparr>
      in case list_objects (storage_provider self) (world st) of
           (Inl e, w) \<Rightarrow>
             (Inl (SmartCloudTagError (str ''Failed to process objects: '' @ exc_str (lib self) e)),
              st\<lparr>world := w\<rparr>)
         | (Inr objects, w) \<Rightarrow>
             if objects = [] then
               (Inr (result\<lparr>summary := Summary_message (str ''No objects found in bucket'')\<rparr>),
                st\<lparr>world := w\<rparr>)
             else
               (case process_loop self pmode process_max_bytes objects result (st\<lparr>world := w\<rparr>) of
                  (result', st') \<Rightarrow>
                    (Inr (result'\<lparr>summary := Summary_stats (get_summary_stats result')\<rparr>), st')))"

definition preview_tags ::
  "'w tagger \<Rightarrow> int option \<Rightarrow> 'w run_state \<Rightarrow> (py_error + TaggingResult) \<times> 'w run_state" where
  "preview_tags self max_bytes_override st = process_objects self PREVIEW max_bytes_override st"

definition apply_tags ::
  "'w tagger \<Rightarrow> int option \<Rightarrow> 'w run_state \<Rightarrow> (py_error + TaggingResult) \<times> 'w run_state" where
  "apply_tags self max_bytes_override st = process_objects self APPLY max_bytes_override st"

text \<open>
  The records of a list of objects, one after the other: each object is processed in the
  state its predecessors left, and its key is paired with its record. This is the reading
  of the specification of a run, to compare the loop with.
\<close>

fun object_trace ::
  "'w tagger \<Rightarrow> ProcessingMode \<Rightarrow> int \<Rightarrow> pystr list \<Rightarrow> 'w run_state
     \<Rightarrow> (pystr \<times> ObjectTags) list \<times> 'w run_state" where
  "object_trace self pmode pmb [] st = ([], st)"
| "object_trace self pmode pmb (obj_key # objects) st =
     (case process_object self pmode pmb obj_key st of
        (object_tags, st1) \<Rightarrow>
          (case object_trace self pmode pmb objects st1 of
             (later, st2) \<Rightarrow> ((obj_key, object_tags) # later, st2)))"

text \<open>The byte budget of a run: the override, unless it is absent or zero.\<close>

definition effective_max_bytes :: "'w tagger \<Rightarrow> int option \<Rightarrow> int" where
  "effective_max_bytes self max_bytes_override =
     (case max_bytes_override of
        None \<Rightarrow> cfg_max_bytes (tagger_config self)
      | Some n \<Rightarrow> if n = 0 then cfg_max_bytes (tagger_config self) else n)"

section \<open>A small bucket to run the orchestrator on\<close>

text \<open>
  A storage backend over a bucket with the given object keys: keys ending in \<open>.txt\<close> are
  supported; fetching the content of \<open>broken.txt\<close> fails; \<open>full.txt\<close> already carries ten
  tags, every other object one; writes succeed. The LLM backend always answers
  \<open>billing\<close>. The outside world has no state of its own.
\<close>

definition ten_tags :: tags where
  "ten_tags = [(str ''a'', str ''v''), (str ''b'', str ''v''), (str ''c'', str ''v''),
               (str ''d'', str ''v''), (str ''e'', str ''v''), (str ''f'', str ''v''),
               (str ''g'', str ''v''), (str ''h'', str ''v''), (str ''i'', str ''v''),
               (str ''j'', str ''v'')]"

definition example_storage :: "pystr list \<Rightarrow> unit storage_provider" where
  "example_storage objs =
     \<lparr>list_objects = (\<lambda>w. (Inr objs, w)),
      is_supported_file_type = (\<lambda>k w. (Inr (drop (length k - 4) k = str ''.txt''), w)),
      get_object_tags =
        (\<lambda>k w. if k = str ''full.txt'' then (Inr ten_tags, w)
                else (Inr [(str ''department'', str ''labs'')], w)),
      get_object_content =
        (\<lambda>k n w. if k = str ''broken.txt''
                  then (Inl (StorageError (str ''Failed to get object content'')), w)
                  else (Inr (str ''invoice 42'', TXT), w)),
      set_object_tags = (\<lambda>k t w. (Inr (), w))\<rparr>"

definition example_llm :: "unit llm_provider" where
  "example_llm = \<lparr>generate_tags = (\<lambda>req w. (Inr [str ''billing''], w))\<rparr>"

definition example_library :: library where
  "example_library =
     \<lparr>json_reformat = (\<lambda>t. Inr t),
      csv_rows = (\<lambda>t. Inr [ [t] ]),
      exc_str = (\<lambda>e. case e of
                        ValueError m \<Rightarrow> m | KeyError m \<Rightarrow> m | SchemaValidationError m \<Rightarrow> m
                      | FileProcessingError m \<Rightarrow> m | LLMError m \<Rightarrow> m | StorageError m \<Rightarrow> m
                      | SmartCloudTagError m \<Rightarrow> m | _ \<Rightarrow> str ''error'')\<rparr>"

definition example_tagger :: "pystr list \<Rightarrow> unit tagger" where
  "example_tagger objs =
     \<lparr>storage_provider = example_storage objs,
      llm_provider = example_llm,
      tagger_config =
        \<lparr>cfg_llm_model = str ''gpt-4.1'', cfg_storage_uri = str ''s3://bucket'',
         cfg_tags = [(str ''department'', Some [str ''labs'', str ''billing''])],
         cfg_max_bytes = 5000\<rparr>,
      storage_provider_type = str ''aws'',
      custom_prompt_template = None,
      lib = example_library\<rparr>"

definition example_objects :: "pystr list" where
  "example_objects = [str ''report.txt'', str ''image.png'', str ''broken.txt'', str ''full.txt'']"

definition start_state :: "unit run_state" where
  "start_state = \<lparr>world = (), set_tags_log = []\<rparr>"

section \<open>Properties of the response parser\<close>

lemma pad_values_eq: "pad_values vals n = vals @ replicate (n - length vals) general"
proof (induction vals n rule: pad_values.induct)
  case (1 vals n)
  show ?case
  proof (cases "length vals < n")
    case True
    then have "n - length vals = Suc (n - Suc (length vals))" by simp
    with True 1 show ?thesis
      by (subst pad_values.simps) (simp add: replicate_app_Cons_same)
  next
    case False
    then show ?thesis by (subst pad_values.simps) simp
  qed
qed

lemma strip_where_all:
  assumes "\<forall>c\<in>set s. P c"
  shows "strip_where P s = []"
proof -
  from assms have d: "dropWhile P s = []" by (induction s) auto
  show ?thesis unfolding strip_where_def d by simp
qed

lemma foldl_remove_prefix_Nil: "\<forall>p\<in>set ps. p \<noteq> [] \<Longrightarrow> foldl remove_prefix [] ps = []"
  by (induction ps) (auto simp: remove_prefix_def startswith_def)

lemma response_values_blank:
  assumes "\<forall>c\<in>set response. py_isspace c"
  shows "response_values response = []"
proof -
  have "strip response = []" using assms by (simp add: strip_def strip_where_all)
  moreover have "foldl remove_prefix [] prefixes_to_remove = []"
    by (rule foldl_remove_prefix_Nil) (simp add: prefixes_to_remove_def)
  moreover have "strip [] = []" "strip_chars quote_chars [] = []"
    by (simp_all add: strip_def strip_chars_def strip_where_def)
  ultimately show ?thesis
    by (simp add: response_values_def)
qed

lemma parse_llm_response_eq:
  "parse_llm_response response tag_keys =
     Inr (if length (response_values response) < length tag_keys
          then response_values response
               @ replicate (length tag_keys - length (response_values response)) general
          else take (length tag_keys) (response_values response))"
  by (simp add: parse_llm_response_def pad_values_eq Let_def)

lemmas parse_eval =
  parse_llm_response_def response_values_def prefixes_to_remove_def remove_prefix_def
  startswith_def strip_def strip_where_def py_isspace_def strip_chars_def pad_values_eq
  general_def quote_chars_def

text \<open>The cleaning of the code is the cleaning the specification words.\<close>

lemma startswith_iff_prefix: "startswith s p \<longleftrightarrow> prefix p s"
proof
  assume "startswith s p"
  then have "s = p @ drop (length p) s" by (metis append_take_drop_id startswith_def)
  then show "prefix p s" by (rule prefixI)
next
  assume "prefix p s"
  then obtain zs where "s = p @ zs" by (auto simp: prefix_def)
  then show "startswith s p" by (simp add: startswith_def)
qed

lemma strip_where_spec_trim: "strip_where P s = spec_trim P s"
proof -
  let ?t = "dropWhile P s"
  have "rev (dropWhile P (rev ?t)) = rev (drop (length (takeWhile P (rev ?t))) (rev ?t))"
    by (simp add: dropWhile_eq_drop)
  also have "\<dots> = take (length ?t - length (takeWhile P (rev ?t))) ?t"
    by (simp add: rev_drop)
  finally show ?thesis by (simp add: strip_where_def spec_trim_def Let_def)
qed

lemma split_on_spec_pieces: "split_on 44 s = spec_pieces s"
proof (induction s)
  case Nil
  show ?case by (subst spec_pieces.simps) simp
next
  case (Cons c cs)
  let ?P = "\<lambda>c :: nat. c \<noteq> 44"
  show ?case
  proof (cases "c = 44")
    case True
    then show ?thesis using Cons.IH by (subst spec_pieces.simps) simp
  next
    case False
    have t: "takeWhile ?P (c # cs) = c # takeWhile ?P cs" using False by simp
    have "spec_pieces (c # cs) =
            (case spec_pieces cs of [] \<Rightarrow> [[c]] | p # ps \<Rightarrow> (c # p) # ps)"
    proof (cases "dropWhile ?P cs")
      case Nil
      have d: "dropWhile ?P (c # cs) = []" using False Nil by simp
      have a: "spec_pieces cs = [takeWhile ?P cs]"
        by (subst spec_pieces.simps) (simp only: Nil list.simps)
      have b: "spec_pieces (c # cs) = [c # takeWhile ?P cs]"
        by (subst spec_pieces.simps) (simp only: d t list.simps)
      show ?thesis by (simp only: a b list.simps)
    next
      case (Cons x xs)
      have d: "dropWhile ?P (c # cs) = x # xs" using False Cons by simp
      have a: "spec_pieces cs = takeWhile ?P cs # spec_pieces xs"
        by (subst spec_pieces.simps) (simp only: Cons list.simps)
      have b: "spec_pieces (c # cs) = (c # takeWhile ?P cs) # spec_pieces xs"
        by (subst spec_pieces.simps) (simp only: d t list.simps)
      show ?thesis by (simp only: a b list.simps)
    qed
    then show ?thesis using False Cons.IH by simp
  qed
qed

lemma remove_prefix_spec:
  "remove_prefix s p = (if prefix p s then spec_trim py_isspace (drop (length p) s) else s)"
  by (simp add: remove_prefix_def startswith_iff_prefix strip_def strip_where_spec_trim)

lemma prefixes_to_remove_spec: "prefixes_to_remove = spec_known_prefixes"
  by (simp only: prefixes_to_remove_def spec_known_prefixes_def)

lemma cleaned_spec:
  "foldl remove_prefix a prefixes_to_remove
     = fold (\<lambda>p s. if prefix p s then spec_trim py_isspace (drop (length p) s) else s)
         spec_known_prefixes a"
proof -
  have f: "(\<lambda>p s. remove_prefix s p)
          = (\<lambda>p s. if prefix p s then spec_trim py_isspace (drop (length p) s) else s)"
    by (intro ext) (rule remove_prefix_spec)
  have "foldl remove_prefix a prefixes_to_remove
          = fold (\<lambda>p s. remove_prefix s p) prefixes_to_remove a"
    by (rule foldl_conv_fold)
  then show ?thesis by (simp only: f prefixes_to_remove_spec)
qed

lemma quote_trim_spec: "strip_chars quote_chars s = spec_trim (\<lambda>c. c = 34 \<or> c = 39) s"
proof -
  have "(\<lambda>c. c \<in> set quote_chars) = (\<lambda>c. c = 34 \<or> c = 39)"
    by (auto simp: quote_chars_def)
  then show ?thesis by (simp add: strip_chars_def strip_where_spec_trim)
qed

lemma response_values_spec: "response_values response = spec_values response"
  unfolding response_values_def spec_values_def Let_def cleaned_spec quote_trim_spec
    split_on_spec_pieces strip_def strip_where_spec_trim ..

lemmas spec_eval = spec_values_def spec_known_prefixes_def spec_trim_def spec_pieces.simps
  py_isspace_def Let_def

text \<open>
  C1. For every list of expected tag keys of length N and every completion, the parser
  returns (it does not raise) a list of exactly N values: the completion is trimmed of
  white space and of the known prefixes, split on commas, each piece trimmed of white
  space and of surrounding quotes, empty pieces dropped; then copies of \<open>general\<close> are
  appended when fewer than N values remain, and the first N are kept when more remain.
  The completion \<open>a, b\<close> with N = 3 gives \<open>a\<close>, \<open>b\<close>, \<open>general\<close>; the completion
  \<open>a, b, c, d\<close> with N = 3 gives \<open>a\<close>, \<open>b\<close>, \<open>c\<close>. Each of the six prefixes is
  removed, and so are double and single quotes around a value.
\<close>

theorem parse_llm_response_exact:
  "parse_llm_response response tag_keys =
     Inr (if length (spec_values response) < length tag_keys
          then spec_values response
               @ replicate (length tag_keys - length (spec_values response)) (str ''general'')
          else take (length tag_keys) (spec_values response))
   \<and> (\<exists>vals. parse_llm_response response tag_keys = Inr vals
          \<and> length vals = length tag_keys)
   \<and> parse_llm_response (str ''a, b'') [k1, k2, k3] = Inr [str ''a'', str ''b'', str ''general'']
   \<and> parse_llm_response (str ''a, b, c, d'') [k1, k2, k3] = Inr [str ''a'', str ''b'', str ''c'']
   \<and> parse_llm_response (str ''Generated tags: x, y'') [k1, k2] = Inr [str ''x'', str ''y'']
   \<and> parse_llm_response (str ''Tags: x, y'') [k1, k2] = Inr [str ''x'', str ''y'']
   \<and> parse_llm_response (str ''Values: x, y'') [k1, k2] = Inr [str ''x'', str ''y'']
   \<and> parse_llm_response (str ''Here are the tags: x, y'') [k1, k2] = Inr [str ''x'', str ''y'']
   \<and> parse_llm_response (str ''The tags are: x, y'') [k1, k2] = Inr [str ''x'', str ''y'']
   \<and> parse_llm_response (str ''Based on the content: x, y'') [k1, k2]
       = Inr [str ''x'', str ''y'']
   \<and> parse_llm_response ([34] @ str ''x'' @ [34] @ str '', '' @ [39] @ str ''y'' @ [39]) [k1, k2]
       = Inr [str ''x'', str ''y'']"
proof (intro conjI)
  show eq: "parse_llm_response response tag_keys =
     Inr (if length (spec_values response) < length tag_keys
          then spec_values response
               @ replicate (length tag_keys - length (spec_values response)) (str ''general'')
          else take (length tag_keys) (spec_values response))"
    by (simp add: parse_llm_response_eq response_values_spec general_def)
  show "\<exists>vals. parse_llm_response response tag_keys = Inr vals
          \<and> length vals = length tag_keys"
    unfolding eq by simp
  show "parse_llm_response (str ''a, b'') [k1, k2, k3] = Inr [str ''a'', str ''b'', str ''general'']"
    by (simp add: parse_eval)
  show "parse_llm_response (str ''a, b, c, d'') [k1, k2, k3] = Inr [str ''a'', str ''b'', str ''c'']"
    by (simp add: parse_eval)
  show "parse_llm_response (str ''Generated tags: x, y'') [k1, k2] = Inr [str ''x'', str ''y'']"
    by (simp add: parse_eval)
  show "parse_llm_response (str ''Tags: x, y'') [k1, k2] = Inr [str ''x'', str ''y'']"
    by (simp add: parse_eval)
  show "parse_llm_response (str ''Values: x, y'') [k1, k2] = Inr [str ''x'', str ''y'']"
    by (simp add: parse_eval)
  show "parse_llm_response (str ''Here are the tags: x, y'') [k1, k2] = Inr [str ''x'', str ''y'']"
    by (simp add: parse_eval)
  show "parse_llm_response (str ''The tags are: x, y'') [k1, k2] = Inr [str ''x'', str ''y'']"
    by (simp add: parse_eval)
  show "parse_llm_response (str ''Based on the content: x, y'') [k1, k2]
       = Inr [str ''x'', str ''y'']"
    by (simp add: parse_eval)
  show "parse_llm_response ([34] @ str ''x'' @ [34] @ str '', '' @ [39] @ str ''y'' @ [39]) [k1, k2]
       = Inr [str ''x'', str ''y'']"
    by (simp add: parse_eval)
qed

theorem parse_llm_response_exact_witness:
  "spec_values (str ''Tags: '' @ [34] @ str ''x'' @ [34] @ str '', , '' @ [39] @ str ''y'' @ [39])
     = [str ''x'', str ''y'']
   \<and> parse_llm_response
        (str ''Tags: '' @ [34] @ str ''x'' @ [34] @ str '', , '' @ [39] @ str ''y'' @ [39])
        [str ''k1'', str ''k2'', str ''k3'', str ''k4'']
       = Inr [str ''x'', str ''y'', str ''general'', str ''general'']"
proof -
  let ?w = "str ''Tags: '' @ [34] @ str ''x'' @ [34] @ str '', , '' @ [39] @ str ''y'' @ [39]"
  have v: "spec_values ?w = [str ''x'', str ''y'']"
    by (simp add: spec_eval)
  have "parse_llm_response ?w [str ''k1'', str ''k2'', str ''k3'', str ''k4'']
       = Inr [str ''x'', str ''y'', str ''general'', str ''general'']"
    using parse_llm_response_exact [of ?w "[str ''k1'', str ''k2'', str ''k3'', str ''k4'']"]
    unfolding v by (simp add: numeral_2_eq_2)
  with v show ?thesis by (intro conjI)
qed

text \<open>
  C10. For every list of expected tag keys of length N, a completion that is empty or
  consists only of white space is parsed without raising, into N copies of \<open>general\<close>.
\<close>

theorem parse_llm_response_blank:
  assumes "\<forall>c\<in>set response. py_isspace c"
  shows "parse_llm_response response tag_keys = Inr (replicate (length tag_keys) general)"
proof -
  from assms have "response_values response = []" by (rule response_values_blank)
  then have "parse_llm_response response tag_keys
               = Inr (if 0 < length tag_keys then replicate (length tag_keys) general else [])"
    by (simp add: parse_llm_response_eq)
  then show ?thesis by simp
qed

theorem parse_llm_response_blank_witness:
  "py_isspace 32 \<and> py_isspace 9 \<and> py_isspace 10
   \<and> parse_llm_response [32, 9, 10] [str ''department'', str ''topic'']
       = Inr [general, general]"
  using parse_llm_response_blank [of "[32, 9, 10]" "[str ''department'', str ''topic'']"]
  by (simp add: py_isspace_def)

section \<open>Properties of UTF-8 and of the truncation\<close>

lemma and_c0_eq: "(b::nat) AND 0xC0 = 64 * (b div 64 mod 4)"
proof -
  have m: "(3::nat) = mask 2" by (simp add: mask_eq_exp_minus_1)
  have d: "drop_bit 6 (192::nat) = 3" by (simp add: drop_bit_eq_div)
  have t: "take_bit 6 (192::nat) = 0" by (simp add: take_bit_eq_mod)
  have "drop_bit 6 (b AND 192) = drop_bit 6 b AND drop_bit 6 192" by (rule drop_bit_and)
  also have "\<dots> = take_bit 2 (drop_bit 6 b)" unfolding d m by (rule take_bit_eq_mask [symmetric])
  also have "\<dots> = b div 64 mod 4" by (simp add: take_bit_eq_mod drop_bit_eq_div)
  finally have 1: "drop_bit 6 (b AND 192) = b div 64 mod 4" .
  have "take_bit 6 (b AND 192) = take_bit 6 b AND take_bit 6 192" by (rule take_bit_and)
  then have 2: "take_bit 6 (b AND 192) = 0" unfolding t by simp
  have "b AND 192 = push_bit 6 (drop_bit 6 (b AND 192)) + take_bit 6 (b AND 192)"
    by (simp only: bits_ident)
  then show ?thesis unfolding 1 2 by (simp add: push_bit_eq_mult)
qed

lemma digits64: obtains q r :: nat where "b = 64 * q + r" "r < 64" "b div 64 = q" "b mod 64 = r"
proof
  show "b = 64 * (b div 64) + b mod 64" by simp
  show "b mod 64 < 64" by simp
qed simp_all

lemma and_c0_byte:
  assumes "b < 256"
  shows "(b AND 0xC0 = 0x80) = is_continuation_byte b"
proof -
  obtain q r where qr: "b = 64 * q + r" "r < 64" "b div 64 = q"
    by (rule digits64)
  from assms qr(1,2) have q4: "q < 4" by linarith
  then have "b AND 0xC0 = 64 * q" unfolding and_c0_eq qr(3) by simp
  moreover have "q = 0 \<or> q = 1 \<or> q = 2 \<or> q = 3" using q4 by linarith
  then have "(64 * q = 128) = (128 \<le> 64 * q + r \<and> 64 * q + r < 192)"
    using qr(2) by auto
  ultimately show ?thesis unfolding is_continuation_byte_def using qr(1) by simp
qed

lemma step2:
  "2 \<le> q \<Longrightarrow> q < 32 \<Longrightarrow> r < 64 \<Longrightarrow>
   utf8_step ((0xC0 + q) # (0x80 + r) # rest) = Decoded (64 * q + r) 2"
  by (simp add: is_continuation_byte_def)

lemma step3:
  "q2 < 16 \<Longrightarrow> q1 < 64 \<Longrightarrow> r < 64 \<Longrightarrow> (q2 = 0 \<longrightarrow> 32 \<le> q1) \<Longrightarrow> (q2 = 13 \<longrightarrow> q1 < 32) \<Longrightarrow>
   utf8_step ((0xE0 + q2) # (0x80 + q1) # (0x80 + r) # rest) = Decoded (4096 * q2 + 64 * q1 + r) 3"
  by (auto simp add: is_continuation_byte_def)

lemma step4:
  "q3 < 5 \<Longrightarrow> q2 < 64 \<Longrightarrow> q1 < 64 \<Longrightarrow> r < 64 \<Longrightarrow> (q3 = 0 \<longrightarrow> 16 \<le> q2) \<Longrightarrow> (q3 = 4 \<longrightarrow> q2 < 16) \<Longrightarrow>
   utf8_step ((0xF0 + q3) # (0x80 + q2) # (0x80 + q1) # (0x80 + r) # rest)
     = Decoded (262144 * q3 + 4096 * q2 + 64 * q1 + r) 4"
  by (auto simp add: is_continuation_byte_def)

text \<open>The decoder on a sequence that ends inside a character.\<close>
lemma step2_cut: "2 \<le> q \<Longrightarrow> q < 32 \<Longrightarrow> utf8_step [0xC0 + q] = Invalid 1"
  by simp
lemma step3_cut1: "q2 < 16 \<Longrightarrow> utf8_step [0xE0 + q2] = Invalid 1"
  by simp
lemma step3_cut2: "q2 < 16 \<Longrightarrow> q1 < 64 \<Longrightarrow> (q2 = 0 \<longrightarrow> 32 \<le> q1) \<Longrightarrow> (q2 = 13 \<longrightarrow> q1 < 32) \<Longrightarrow>
   utf8_step [0xE0 + q2, 0x80 + q1] = Invalid 2"
  by (auto simp add: is_continuation_byte_def)
lemma step4_cut1: "q3 < 5 \<Longrightarrow> utf8_step [0xF0 + q3] = Invalid 1"
  by simp
lemma step4_cut2: "q3 < 5 \<Longrightarrow> q2 < 64 \<Longrightarrow>  (q3 = 0 \<longrightarrow> 16 \<le> q2) \<Longrightarrow> (q3 = 4 \<longrightarrow> q2 < 16) \<Longrightarrow>
   utf8_step [0xF0 + q3, 0x80 + q2] = Invalid 2"
  by (auto simp add: is_continuation_byte_def)
lemma step4_cut3: "q3 < 5 \<Longrightarrow> q2 < 64 \<Longrightarrow> q1 < 64 \<Longrightarrow> (q3 = 0 \<longrightarrow> 16 \<le> q2) \<Longrightarrow> (q3 = 4 \<longrightarrow> q2 < 16) \<Longrightarrow>
   utf8_step [0xF0 + q3, 0x80 + q2, 0x80 + q1] = Invalid 3"
  by (auto simp add: is_continuation_byte_def)

lemma utf8_encode_cp_cases [consumes 1, case_names one two three four]:
  assumes "utf8_encode_cp c = Inr e"
  obtains
    (one) "c < 0x80" "e = [c]"
  | (two) q r where "e = [0xC0 + q, 0x80 + r]" "c = 64 * q + r" "2 \<le> q" "q < 32" "r < 64"
  | (three) q2 q1 r where "e = [0xE0 + q2, 0x80 + q1, 0x80 + r]" "c = 4096 * q2 + 64 * q1 + r"
      "q2 < 16" "q1 < 64" "r < 64" "q2 = 0 \<longrightarrow> 32 \<le> q1" "q2 = 13 \<longrightarrow> q1 < 32"
  | (four) q3 q2 q1 r where "e = [0xF0 + q3, 0x80 + q2, 0x80 + q1, 0x80 + r]"
      "c = 262144 * q3 + 4096 * q2 + 64 * q1 + r"
      "q3 < 5" "q2 < 64" "q1 < 64" "r < 64" "q3 = 0 \<longrightarrow> 16 \<le> q2" "q3 = 4 \<longrightarrow> q2 < 16"
proof -
  obtain a r where ar: "c = 64 * a + r" "r < 64" "c div 64 = a" "c mod 64 = r"
    by (rule digits64)
  obtain b q1 where bq: "a = 64 * b + q1" "q1 < 64" "a div 64 = b" "a mod 64 = q1"
    by (rule digits64)
  obtain q3 q2 where qq: "b = 64 * q3 + q2" "q2 < 64" "b div 64 = q3" "b mod 64 = q2"
    by (rule digits64)
  have "c div (64 * 64) = c div 64 div 64" by (rule div_mult2_eq)
  then have d4096: "c div 4096 = b" using ar(3) bq(3) by simp
  have "c div (4096 * 64) = c div 4096 div 64" by (rule div_mult2_eq)
  then have d262144: "c div 262144 = q3" using d4096 qq(3) by simp
  consider "c < 0x80" | "0x80 \<le> c" "c < 0x800" 
    | "0x800 \<le> c" "c < 0x10000" "\<not> (0xD800 \<le> c \<and> c \<le> 0xDFFF)"
    | "0x10000 \<le> c" "c < 0x110000"
    using assms by (auto simp: utf8_encode_cp_def split: if_splits) 
  then show ?thesis
  proof cases
    case 1
    with assms have "e = [c]" by (simp add: utf8_encode_cp_def)
    with 1 show ?thesis by (rule one)
  next
    case 2
    with assms have "e = [0xC0 + a, 0x80 + r]" by (simp add: utf8_encode_cp_def ar(3,4))
    moreover have "2 \<le> a" "a < 32" using 2 ar(1,2) by linarith+
    ultimately show ?thesis using ar(1,2) by (intro two[of a r])
  next
    case 3
    with assms have "e = [0xE0 + b, 0x80 + q1, 0x80 + r]"
      by (simp add: utf8_encode_cp_def ar(3,4) d4096 bq(4))
    moreover have c: "c = 4096 * b + 64 * q1 + r" using ar(1) bq(1) by simp
    moreover have "b < 16" using 3 c ar(2) bq(2) by linarith
    moreover have "b = 0 \<longrightarrow> 32 \<le> q1" using 3 c ar(2) bq(2) by auto
    moreover have "b = 13 \<longrightarrow> q1 < 32" using 3 c ar(2) bq(2) by auto
    ultimately show ?thesis using ar(2) bq(2) by (intro three[of b q1 r])
  next
    case 4
    with assms have "e = [0xF0 + q3, 0x80 + q2, 0x80 + q1, 0x80 + r]"
      by (simp add: utf8_encode_cp_def ar(3,4) d4096 bq(4) d262144 qq(4))
    moreover have c: "c = 262144 * q3 + 4096 * q2 + 64 * q1 + r" using ar(1) bq(1) qq(1) by simp
    moreover have "q3 < 5" using 4 c ar(2) bq(2) qq(2) by linarith
    moreover have "q3 = 0 \<longrightarrow> 16 \<le> q2" using 4 c ar(2) bq(2) qq(2) by auto
    moreover have "q3 = 4 \<longrightarrow> q2 < 16" using 4 c ar(2) bq(2) qq(2) by auto
    ultimately show ?thesis using ar(2) bq(2) qq(2) by (intro four[of q3 q2 q1 r])
  qed
qed

lemma utf8_step_encoded:
  assumes "utf8_encode_cp c = Inr e"
  shows "utf8_step (e @ rest) = Decoded c (length e)"
  using assms
proof (cases rule: utf8_encode_cp_cases)
  case one
  then show ?thesis by simp
next
  case (two q r)
  then show ?thesis using step2 [of q r rest] by simp
next
  case (three q2 q1 r)
  then show ?thesis using step3 [of q2 q1 r rest] by simp
next
  case (four q3 q2 q1 r)
  then show ?thesis using step4 [of q3 q2 q1 r rest] by simp
qed

lemma utf8_encode_cp_nonempty: "utf8_encode_cp c = Inr e \<Longrightarrow> e \<noteq> []"
  by (auto simp: utf8_encode_cp_def split: if_splits)

lemma utf8_decode_encoded_cp:
  assumes "utf8_encode_cp c = Inr e"
  shows "utf8_decode m (e @ rest) =
           (case utf8_decode m rest of Inl x \<Rightarrow> Inl x | Inr cs \<Rightarrow> Inr (c # cs))"
proof -
  from assms obtain b e' where e: "e = b # e'"
    using utf8_encode_cp_nonempty by (cases e) auto
  have "utf8_step (b # e' @ rest) = Decoded c (length e)"
    using utf8_step_encoded [OF assms, of rest] e by simp
  moreover have "drop (length e) (b # e' @ rest) = rest" using e by simp
  ultimately show ?thesis unfolding e by (simp del: utf8_step.simps)
qed

lemma utf8_decode_encode:
  "utf8_encode s = Inr bs \<Longrightarrow> utf8_decode m bs = Inr s"
proof (induction s arbitrary: bs)
  case Nil
  then show ?case by simp
next
  case (Cons c cs)
  then obtain e rest where e: "utf8_encode_cp c = Inr e" "utf8_encode cs = Inr rest" "bs = e @ rest"
    by (auto split: sum.splits)
  with Cons.IH [of rest] show ?case by (simp add: utf8_decode_encoded_cp)
qed

lemma utf8_decode_strict_cut:
  assumes "utf8_encode pre = Inr pb" "utf8_step (b # p) = Invalid k"
  shows "utf8_decode Strict (pb @ b # p) = Inl UnicodeDecodeError"
  using assms(1)
proof (induction pre arbitrary: pb)
  case Nil
  then show ?case using assms(2) by (simp del: utf8_step.simps)
next
  case (Cons c cs)
  then obtain e rest where e: "utf8_encode_cp c = Inr e" "utf8_encode cs = Inr rest" "pb = e @ rest"
    by (auto split: sum.splits)
  with Cons.IH [of rest] show ?case by (simp add: utf8_decode_encoded_cp)
qed

lemma utf8_decode_ignore_lead:
  assumes "utf8_encode pre = Inr pb" "utf8_step [lead] = Invalid 1"
  shows "utf8_decode Ignore (pb @ [lead]) = Inr pre"
  using assms(1)
proof (induction pre arbitrary: pb)
  case Nil
  then show ?case using assms(2) by (simp del: utf8_step.simps)
next
  case (Cons c cs)
  then obtain e rest where e: "utf8_encode_cp c = Inr e" "utf8_encode cs = Inr rest" "pb = e @ rest"
    by (auto split: sum.splits)
  with Cons.IH [of rest] show ?case by (simp add: utf8_decode_encoded_cp)
qed

text \<open>A cut inside the encoding of one code point.\<close>

lemma cont_and: "x < 64 \<Longrightarrow> (0x80 + x :: nat) AND 0xC0 = 0x80"
  using and_c0_byte [of "0x80 + x"] by (simp add: is_continuation_byte_def)

lemma lead_and: "0xC0 \<le> l \<Longrightarrow> l < 256 \<Longrightarrow> (l :: nat) AND 0xC0 \<noteq> 0x80"
  using and_c0_byte [of l] by (simp add: is_continuation_byte_def)

lemma utf8_encode_cp_cut:
  assumes "utf8_encode_cp c = Inr e" "0 < k" "k < length e"
  obtains lead conts where "take k e = lead # conts"
    "lead AND 0xC0 \<noteq> 0x80" "\<forall>b\<in>set conts. b AND 0xC0 = 0x80"
    "utf8_step [lead] = Invalid 1" "utf8_step (lead # conts) = Invalid k"
  using assms(1)
proof (cases rule: utf8_encode_cp_cases)
  case one
  with assms show ?thesis by simp
next
  case (two q r)
  with assms have k: "k = 1" by simp
  show ?thesis
  proof (rule that [of "0xC0 + q" "[]"])
    show "take k e = [0xC0 + q]" using two k by simp
    show "(0xC0 + q) AND 0xC0 \<noteq> 0x80" using two by (intro lead_and) simp_all
    show "utf8_step [0xC0 + q] = Invalid 1" using two by (intro step2_cut)
    then show "utf8_step [0xC0 + q] = Invalid k" using k by simp
  qed simp
next
  case (three q2 q1 r)
  with assms have k: "k = 1 \<or> k = 2" by auto
  have l: "(0xE0 + q2) AND 0xC0 \<noteq> 0x80" using three by (intro lead_and) simp_all
  have s1: "utf8_step [0xE0 + q2] = Invalid 1" using three by (intro step3_cut1)
  from k show ?thesis
  proof
    assume k: "k = 1"
    show ?thesis
      by (rule that [of "0xE0 + q2" "[]"]) (use three k l s1 in simp_all)
  next
    assume k: "k = 2"
    have "utf8_step [0xE0 + q2, 0x80 + q1] = Invalid 2" using three by (intro step3_cut2)
    then show ?thesis
      by (intro that [of "0xE0 + q2" "[0x80 + q1]"]) (use three k l s1 cont_and in simp_all)
  qed
next
  case (four q3 q2 q1 r)
  with assms have k: "k = 1 \<or> k = 2 \<or> k = 3" by auto
  have l: "(0xF0 + q3) AND 0xC0 \<noteq> 0x80" using four by (intro lead_and) simp_all
  have s1: "utf8_step [0xF0 + q3] = Invalid 1" using four by (intro step4_cut1)
  have s2: "utf8_step [0xF0 + q3, 0x80 + q2] = Invalid 2" using four by (intro step4_cut2)
  have s3: "utf8_step [0xF0 + q3, 0x80 + q2, 0x80 + q1] = Invalid 3"
    using four by (intro step4_cut3)
  from k consider "k = 1" | "k = 2" | "k = 3" by blast
  then show ?thesis
  proof cases
    case 1
    show ?thesis
      by (rule that [of "0xF0 + q3" "[]"]) (use four 1 l s1 in simp_all)
  next
    case 2
    show ?thesis
      by (rule that [of "0xF0 + q3" "[0x80 + q2]"]) (use four 2 l s1 s2 cont_and in simp_all)
  next
    case 3
    show ?thesis
      by (rule that [of "0xF0 + q3" "[0x80 + q2, 0x80 + q1]"])
        (use four 3 l s1 s3 cont_and in \<open>simp_all add: numeral_3_eq_3\<close>)
  qed
qed

lemma strip_continuation_tail:
  assumes "lead AND 0xC0 \<noteq> 0x80" "\<forall>b\<in>set conts. b AND 0xC0 = 0x80"
  shows "strip_continuation (xs @ lead # conts) = xs @ [lead]"
  using assms(2)
proof (induction conts rule: rev_induct)
  case Nil
  show ?case using assms(1) by (subst strip_continuation.simps) simp
next
  case (snoc b bs)
  then have "strip_continuation (xs @ lead # bs) = xs @ [lead]" by simp
  moreover have "b AND 0xC0 = 0x80" using snoc.prems by simp
  moreover have "butlast (xs @ lead # bs @ [b]) = xs @ lead # bs"
    by (simp add: butlast_append)
  ultimately show ?case
    by (subst strip_continuation.simps) simp
qed

text \<open>Where a cut of the encoded text falls.\<close>

lemma utf8_encode_take:
  assumes "utf8_encode s = Inr bs" "n < length bs"
  shows "\<exists>pre c post pb e k. s = pre @ c # post \<and> utf8_encode pre = Inr pb
           \<and> utf8_encode_cp c = Inr e \<and> k < length e \<and> take n bs = pb @ take k e
           \<and> n = length pb + k"
  using assms
proof (induction s arbitrary: bs n)
  case Nil
  then show ?case by simp
next
  case (Cons c cs)
  then obtain e rest where e: "utf8_encode_cp c = Inr e" "utf8_encode cs = Inr rest" "bs = e @ rest"
    by (auto split: sum.splits)
  show ?case
  proof (cases "n < length e")
    case True
    then have "take n bs = [] @ take n e" using e by simp
    with e True show ?thesis
      by (intro exI [of _ "[]"] exI [of _ c] exI [of _ cs] exI [of _ e] exI [of _ n]) simp
  next
    case False
    then have n: "n - length e < length rest" using Cons.prems e by simp
    from Cons.IH [OF e(2) n] obtain pre c' post pb e' k where
      IH: "cs = pre @ c' # post" "utf8_encode pre = Inr pb" "utf8_encode_cp c' = Inr e'"
          "k < length e'" "take (n - length e) rest = pb @ take k e'" "n - length e = length pb + k"
      by blast
    have "take n bs = (e @ pb) @ take k e'" using False e IH(5) by simp
    moreover have "utf8_encode (c # pre) = Inr (e @ pb)" using e IH(2) by simp
    moreover have "n = length (e @ pb) + k" using False IH(6) by simp
    moreover have "c # cs = (c # pre) @ c' # post" using IH(1) by simp
    ultimately show ?thesis using IH(3,4) by blast
  qed
qed

lemma utf8_encode_append:
  "utf8_encode xs = Inr a \<Longrightarrow> utf8_encode ys = Inr b \<Longrightarrow> utf8_encode (xs @ ys) = Inr (a @ b)"
  by (induction xs arbitrary: a) (auto split: sum.splits)

lemma truncate_content_short:
  "utf8_encode s = Inr bs \<Longrightarrow> int (length bs) \<le> b \<Longrightarrow> truncate_content s b = Inr s"
  by (simp add: truncate_content_def)

lemma truncate_content_cut:
  assumes enc: "utf8_encode s = Inr bs" and b: "0 \<le> b" "b < int (length bs)"
  obtains pre c post pb e where "s = pre @ c # post" "utf8_encode pre = Inr pb"
    "utf8_encode_cp c = Inr e" "int (length pb) \<le> b" "b < int (length pb + length e)"
    "truncate_content s b = Inr pre"
proof -
  from b have n: "nat b < length bs" by simp
  from utf8_encode_take [OF enc n] obtain pre c post pb e k where
    d: "s = pre @ c # post" "utf8_encode pre = Inr pb" "utf8_encode_cp c = Inr e"
       "k < length e" "take (nat b) bs = pb @ take k e" "nat b = length pb + k"
    by blast
  have sl: "slice_to b bs = pb @ take k e" using b d(5) by (simp add: slice_to_def)
  have le: "int (length pb) \<le> b" "b < int (length pb + length e)" using d(4,6) b by linarith+
  have "truncate_content s b = Inr pre"
  proof (cases "k = 0")
    case True
    then have "slice_to b bs = pb" using sl by simp
    moreover have "utf8_decode Strict pb = Inr pre" using d(2) by (rule utf8_decode_encode)
    ultimately show ?thesis using enc b by (simp add: truncate_content_def)
  next
    case False
    then have "0 < k" by simp
    from utf8_encode_cp_cut [OF d(3) this d(4)] obtain lead conts where
      c: "take k e = lead # conts" "lead AND 0xC0 \<noteq> 0x80" "\<forall>b\<in>set conts. b AND 0xC0 = 0x80"
         "utf8_step [lead] = Invalid 1" "utf8_step (lead # conts) = Invalid k"
      by blast
    have "utf8_decode Strict (pb @ lead # conts) = Inl UnicodeDecodeError"
      using d(2) c(5) by (rule utf8_decode_strict_cut)
    moreover have "strip_continuation (pb @ lead # conts) = pb @ [lead]"
      using c(2,3) by (rule strip_continuation_tail)
    moreover have "utf8_decode Ignore (pb @ [lead]) = Inr pre"
      using d(2) c(4) by (rule utf8_decode_ignore_lead)
    ultimately show ?thesis using enc b sl c(1) by (simp add: truncate_content_def)
  qed
  with d(1,2,3) le show ?thesis by (rule that)
qed

text \<open>
  C3 (as amended). For every string that UTF-8 can encode (no surrogate code point) and
  every positive byte budget \<open>b\<close>, the truncation returns a string \<open>t\<close> that is a prefix
  of the input in whole characters, whose UTF-8 encoding has at most \<open>b\<close> bytes and decodes
  back to \<open>t\<close> without error, and truncating \<open>t\<close> again with the same budget returns \<open>t\<close>.
  The cut is the longest one: either nothing is dropped, or one more character would
  exceed the budget.
\<close>

theorem truncate_content_fits:
  assumes "utf8_encode s = Inr bs" and "0 < b"
  shows "\<exists>t tb. truncate_content s b = Inr t \<and> prefix t s
           \<and> utf8_encode t = Inr tb \<and> int (length tb) \<le> b \<and> utf8_decode Strict tb = Inr t
           \<and> truncate_content t b = Inr t
           \<and> (t = s \<or> (\<exists>tb'. utf8_encode (take (Suc (length t)) s) = Inr tb'
                              \<and> b < int (length tb')))"
proof (cases "int (length bs) \<le> b")
  case True
  with assms(1) have "truncate_content s b = Inr s" by (rule truncate_content_short)
  moreover have "utf8_decode Strict bs = Inr s" using assms(1) by (rule utf8_decode_encode)
  ultimately show ?thesis using assms(1) True by auto
next
  case False
  with assms have "0 \<le> b" "b < int (length bs)" by simp_all
  from truncate_content_cut [OF assms(1) this] obtain pre c post pb e where
    d: "s = pre @ c # post" "utf8_encode pre = Inr pb" "utf8_encode_cp c = Inr e"
       "int (length pb) \<le> b" "b < int (length pb + length e)" "truncate_content s b = Inr pre"
    by blast
  have "prefix pre s" using d(1) by simp
  moreover have "utf8_decode Strict pb = Inr pre" using d(2) by (rule utf8_decode_encode)
  moreover have "truncate_content pre b = Inr pre" using d(2,4) by (rule truncate_content_short)
  moreover have "take (Suc (length pre)) s = pre @ [c]" using d(1) by simp
  moreover have "utf8_encode (pre @ [c]) = Inr (pb @ e)"
    using d(2,3) by (intro utf8_encode_append) simp_all
  ultimately show ?thesis using d(2,4,5,6) by auto
qed

lemmas truncate_eval = truncate_content_def utf8_encode_cp_def slice_to_def
  strip_continuation.simps is_continuation_byte_def

theorem truncate_content_fits_witness:
  "utf8_encode [0x20AC, 97, 0x1F600, 233] = Inr [226, 130, 172, 97, 240, 159, 152, 128, 195, 169]
   \<and> (0::int) < 5
   \<and> truncate_content [0x20AC, 97, 0x1F600, 233] 5 = Inr [0x20AC, 97]
   \<and> (\<exists>t tb. truncate_content [0x20AC, 97, 0x1F600, 233] 5 = Inr t
          \<and> prefix t [0x20AC, 97, 0x1F600, 233]
          \<and> utf8_encode t = Inr tb \<and> int (length tb) \<le> 5 \<and> utf8_decode Strict tb = Inr t
          \<and> truncate_content t 5 = Inr t
          \<and> (t = [0x20AC, 97, 0x1F600, 233]
               \<or> (\<exists>tb'. utf8_encode (take (Suc (length t)) [0x20AC, 97, 0x1F600, 233]) = Inr tb'
                         \<and> 5 < int (length tb'))))"
proof -
  have h: "utf8_encode [0x20AC, 97, 0x1F600, 233]
             = Inr [226, 130, 172, 97, 240, 159, 152, 128, 195, 169]"
    by (simp add: utf8_encode_cp_def)
  have v: "truncate_content [0x20AC, 97, 0x1F600, 233] 5 = Inr [0x20AC, 97]"
    by (simp add: truncate_eval)
  have p: "(0::int) < 5" by simp
  show ?thesis
    by (intro conjI) (rule h, rule p, rule v, rule truncate_content_fits [OF h p])
qed

text \<open>
  C3 as stated fails: a Python string can hold a lone surrogate, and for such a string
  the truncation raises \<open>UnicodeEncodeError\<close> instead of returning a string.
\<close>

theorem truncate_content_surrogate_counterexample:
  "truncate_content [0xD800] 1 = Inl (UnicodeEncodeError 0xD800)"
  by (simp add: truncate_eval)

section \<open>Properties of schema validation\<close>








lemma show_nat_10: "show_nat 10 = str ''10''"
  by (simp add: show_nat.simps)

lemma show_nat_64: "show_nat 64 = str ''64''"
  by (simp add: show_nat.simps)






text \<open>
  The key \<open>_\<close> holds no letter and no digit: once \<open>-\<close> and \<open>_\<close> are removed the empty
  string is left, on which \<open>isalnum\<close> is false, and the key is reported as holding
  invalid characters.
\<close>

lemma validate_tagging_config_underscore:
  "validate_tagging_config (\<lambda>c. False)
     \<lparr>cfg_llm_model = str ''gpt-4.1'', cfg_storage_uri = str ''s3://bucket'',
      cfg_tags = [([95], None)], cfg_max_bytes = 5000\<rparr> (str ''aws'')
     = Inl (SchemaValidationError
             (str ''Tag key '' @ [39, 95, 39] @ str '' contains invalid characters''))"
  by (simp add: validate_tagging_config_def get_provider_tag_limits_def validate_tag_key_def
      is_blank_def strip_def strip_where_def py_isspace_def isalnum_def remove_char_def)

section \<open>Properties of the merge\<close>

lemma dict_set_fresh: "k \<notin> set (map fst d) \<Longrightarrow> dict_set d k v = d @ [(k, v)]"
  by (induction d) auto

lemma dict_update_fresh:
  "distinct (map fst other) \<Longrightarrow> set (map fst other) \<inter> set (map fst d) = {} \<Longrightarrow>
   dict_update d other = d @ other"
proof (induction other arbitrary: d)
  case Nil
  then show ?case by (simp add: dict_update_def)
next
  case (Cons kv other)
  obtain k v where kv: "kv = (k, v)" by (cases kv)
  have "dict_set d k v = d @ [(k, v)]" using Cons.prems kv by (intro dict_set_fresh) auto
  moreover have "dict_update (d @ [(k, v)]) other = (d @ [(k, v)]) @ other"
    using Cons.prems kv by (intro Cons.IH) auto
  ultimately show ?case by (simp add: dict_update_def kv)
qed

lemma validate_values_loop_valid:
  "list_all (valid_value limits) (map snd kvs) \<Longrightarrow> validate_values_loop limits kvs = Inr ()"
  by (induction kvs) (auto simp: valid_value_def)

lemma validate_existing_loop_valid:
  "list_all (valid_entry limits) tgs \<Longrightarrow> validate_existing_loop limits tgs = Inr ()"
  by (induction tgs) (auto simp: valid_entry_def valid_value_def)

lemma length_filter_schema_keys:
  "length (filter (\<lambda>(k, v). k \<notin> set tag_keys) existing_tags)
     = length existing_tags - length (filter (\<lambda>k. k \<in> set tag_keys) (map fst existing_tags))"
proof -
  have "length (filter (\<lambda>(k, v). k \<notin> set tag_keys) existing_tags)
          + length (filter (\<lambda>k. k \<in> set tag_keys) (map fst existing_tags)) = length existing_tags"
    by (induction existing_tags) auto
  then show ?thesis by linarith
qed

lemma shared_keys_le:
  assumes "distinct ks" "distinct tag_keys"
  shows "length (filter (\<lambda>k. k \<in> set tag_keys) ks) \<le> length tag_keys"
proof -
  let ?f = "filter (\<lambda>k. k \<in> set tag_keys) ks"
  have "distinct ?f" using assms(1) by simp
  then have "length ?f = card (set ?f)" by (metis distinct_card)
  also have "\<dots> \<le> card (set tag_keys)" by (intro card_mono) auto
  also have "\<dots> = length tag_keys" using assms(2) by (metis distinct_card)
  finally show ?thesis .
qed

lemma map_of_overlay:
  assumes "set (map fst new_tags) = set tag_keys"
  shows "map_of (filter (\<lambda>(k, v). k \<notin> set tag_keys) existing_tags @ new_tags) k
           = (if k \<in> set tag_keys then map_of new_tags k else map_of existing_tags k)"
proof (cases "k \<in> set tag_keys")
  case True
  then have "map_of (filter (\<lambda>(k, v). k \<notin> set tag_keys) existing_tags) k = None"
    by (induction existing_tags) auto
  then show ?thesis using True by (simp add: map_add_def)
next
  case False
  then have "map_of new_tags k = None" using assms by (simp add: map_of_eq_None_iff)
  moreover have "map_of (filter (\<lambda>(k, v). k \<notin> set tag_keys) existing_tags) k = map_of existing_tags k"
    using False by (induction existing_tags) auto
  ultimately show ?thesis using False by (simp add: map_add_def split: option.splits)
qed

text \<open>
  C2. For existing tags with k1 entries and proposed tags with k2 entries, one for each
  schema key, all entries passing the per-entry checks of the backend, the merge is the
  existing tags without the schema keys followed by the proposed tags: a schema key has
  the proposed value, any other key its existing value; the merged count is k1 - s + k2,
  with s the number of schema keys among the existing tags. When that count exceeds the
  maximal tag count of the backend the merge fails with \<open>SchemaValidationError\<close> and
  returns no mapping; otherwise it returns the merged mapping.
\<close>

theorem merge_and_validate_tags_overlay:
  assumes "get_provider_tag_limits provider = Inr limits"
    and "distinct (map fst existing_tags)" and "distinct (map fst new_tags)"
    and "distinct tag_keys" and "set (map fst new_tags) = set tag_keys"
    and "list_all (valid_entry limits) existing_tags"
    and "list_all (valid_value limits) (map snd new_tags)"
  shows "merge_and_validate_tags existing_tags new_tags tag_keys provider =
           (if max_tags limits
                 < length existing_tags
                   - length (filter (\<lambda>k. k \<in> set tag_keys) (map fst existing_tags))
                   + length new_tags
            then Inl (SchemaValidationError
                       (if max_tags limits < length existing_tags
                        then str ''Object has '' @ show_nat (length existing_tags)
                             @ str '' tags, exceeding the limit of '' @ show_nat (max_tags limits)
                        else str ''Total tags (''
                             @ show_nat (length existing_tags
                                 - length (filter (\<lambda>k. k \<in> set tag_keys) (map fst existing_tags))
                                 + length new_tags)
                             @ str '') would exceed the limit of '' @ show_nat (max_tags limits)))
            else Inr (filter (\<lambda>(k, v). k \<notin> set tag_keys) existing_tags @ new_tags))
       \<and> length (filter (\<lambda>(k, v). k \<notin> set tag_keys) existing_tags @ new_tags)
           = length existing_tags
             - length (filter (\<lambda>k. k \<in> set tag_keys) (map fst existing_tags))
             + length new_tags
       \<and> (\<forall>k. map_of (filter (\<lambda>(k, v). k \<notin> set tag_keys) existing_tags @ new_tags) k
                = (if k \<in> set tag_keys then map_of new_tags k else map_of existing_tags k))"
proof -
  let ?s = "length (filter (\<lambda>k. k \<in> set tag_keys) (map fst existing_tags))"
  let ?kept = "filter (\<lambda>(k, v). k \<notin> set tag_keys) existing_tags"
  have n: "length new_tags = length tag_keys"
    using assms(3,4,5) by (metis distinct_card length_map)
  have s: "?s \<le> length new_tags" unfolding n using assms(2,4) by (rule shared_keys_le)
  have len: "length (?kept @ new_tags) = length existing_tags - ?s + length new_tags"
    by (simp add: length_filter_schema_keys)
  have "set (map fst new_tags) \<inter> set (map fst ?kept) = {}" using assms(5) by auto
  with assms(3) have upd: "dict_update ?kept new_tags = ?kept @ new_tags"
    by (rule dict_update_fresh)
  have vn: "validate_tag_values (map snd new_tags) tag_keys provider = Inr ()"
  proof -
    have "list_all (valid_value limits) (map snd (zip tag_keys (map snd new_tags)))"
      using assms(7) n by simp
    then show ?thesis
      using assms(1) n by (simp add: validate_tag_values_def validate_values_loop_valid)
  qed
  have ve: "validate_existing_tags existing_tags provider =
              (if max_tags limits < length existing_tags
               then Inl (SchemaValidationError
                           (str ''Object has '' @ show_nat (length existing_tags)
                             @ str '' tags, exceeding the limit of '' @ show_nat (max_tags limits)))
               else Inr ())"
    using assms(1,6) by (simp add: validate_existing_tags_def validate_existing_loop_valid)
  have big: "max_tags limits < length existing_tags - ?s + length new_tags"
    if "max_tags limits < length existing_tags"
    using that s by linarith
  have "merge_and_validate_tags existing_tags new_tags tag_keys provider =
           (if max_tags limits < length existing_tags - ?s + length new_tags
            then Inl (SchemaValidationError
                       (if max_tags limits < length existing_tags
                        then str ''Object has '' @ show_nat (length existing_tags)
                             @ str '' tags, exceeding the limit of '' @ show_nat (max_tags limits)
                        else str ''Total tags (''
                             @ show_nat (length existing_tags - ?s + length new_tags)
                             @ str '') would exceed the limit of '' @ show_nat (max_tags limits)))
            else Inr (?kept @ new_tags))"
  proof (cases "max_tags limits < length existing_tags")
    case True
    then show ?thesis using big [OF True] assms(1) by (simp add: merge_and_validate_tags_def ve)
  next
    case False
    then show ?thesis
      using assms(1) len by (simp add: merge_and_validate_tags_def ve vn upd Let_def)
  qed
  moreover have "\<forall>k. map_of (?kept @ new_tags) k
                = (if k \<in> set tag_keys then map_of new_tags k else map_of existing_tags k)"
    using map_of_overlay [OF assms(5)] by blast
  ultimately show ?thesis using len by blast
qed

theorem merge_and_validate_tags_overlay_witness:
  "get_provider_tag_limits (str ''aws'') = Inr \<lparr>max_tags = 10, max_key = 128, max_value = 256\<rparr>
   \<and> distinct (map fst [(str ''department'', str ''labs''), (str ''owner'', str ''alice'')])
   \<and> distinct (map fst [(str ''department'', str ''billing'')])
   \<and> distinct [str ''department'']
   \<and> set (map fst [(str ''department'', str ''billing'')]) = set [str ''department'']
   \<and> list_all (valid_entry \<lparr>max_tags = 10, max_key = 128, max_value = 256\<rparr>)
        [(str ''department'', str ''labs''), (str ''owner'', str ''alice'')]
   \<and> list_all (valid_value \<lparr>max_tags = 10, max_key = 128, max_value = 256\<rparr>)
        (map snd [(str ''department'', str ''billing'')])
   \<and> merge_and_validate_tags [(str ''department'', str ''labs''), (str ''owner'', str ''alice'')]
        [(str ''department'', str ''billing'')] [str ''department''] (str ''aws'')
       = Inr [(str ''owner'', str ''alice''), (str ''department'', str ''billing'')]"
proof -
  let ?L = "\<lparr>max_tags = 10, max_key = 128, max_value = 256\<rparr>"
  let ?E = "[(str ''department'', str ''labs''), (str ''owner'', str ''alice'')]"
  let ?N = "[(str ''department'', str ''billing'')]"
  have h1: "get_provider_tag_limits (str ''aws'') = Inr ?L"
    by (simp add: get_provider_tag_limits_def)
  have h2: "distinct (map fst ?E)" by simp
  have h3: "distinct (map fst ?N)" by simp
  have h4: "distinct [str ''department'']" by simp
  have h5: "set (map fst ?N) = set [str ''department'']" by simp
  have h6: "list_all (valid_entry ?L) ?E"
    by (simp add: valid_entry_def valid_value_def is_blank_def strip_def strip_where_def
        py_isspace_def)
  have h7: "list_all (valid_value ?L) (map snd ?N)"
    by (simp add: valid_value_def is_blank_def strip_def strip_where_def py_isspace_def)
  have r: "merge_and_validate_tags ?E ?N [str ''department''] (str ''aws'')
       = Inr [(str ''owner'', str ''alice''), (str ''department'', str ''billing'')]"
    using merge_and_validate_tags_overlay [OF h1 h2 h3 h4 h5 h6 h7] by simp
  show ?thesis
    by (intro conjI) (rule h1, rule h2, rule h3, rule h4, rule h5, rule h6, rule h7, rule r)
qed

lemma foldl_dict_set_fresh:
  "distinct (map fst acc @ map fst kvs) \<Longrightarrow>
   foldl (\<lambda>m (k, v). dict_set m k (g v)) acc kvs = acc @ map (\<lambda>(k, v). (k, g v)) kvs"
proof (induction kvs arbitrary: acc)
  case Nil
  then show ?case by simp
next
  case (Cons kv kvs)
  obtain k v where kv: "kv = (k, v)" by (cases kv)
  have "dict_set acc k (g v) = acc @ [(k, g v)]"
    using Cons.prems kv by (intro dict_set_fresh) auto
  moreover have "distinct (map fst (acc @ [(k, g v)]) @ map fst kvs)"
    using Cons.prems kv by auto
  ultimately show ?case using Cons.IH [of "acc @ [(k, g v)]"] kv by simp
qed

text \<open>
  The proposed tags the pipeline hands to the merge hold one entry for each schema key,
  in the order of the schema, with the trimmed value.
\<close>

lemma create_tag_mapping_keys:
  assumes "create_tag_mapping tag_keys vals provider = Inr proposed_tags" and "distinct tag_keys"
  shows "map fst proposed_tags = tag_keys" and "map snd proposed_tags = map strip vals"
proof -
  from assms(1) have len: "length vals = length tag_keys"
    by (auto simp: create_tag_mapping_def validate_tag_values_def split: sum.splits if_splits)
  have "distinct (map fst ([] :: tags) @ map fst (zip tag_keys vals))"
    using assms(2) len by simp
  from foldl_dict_set_fresh [OF this, of strip]
  have "proposed_tags = map (\<lambda>(k, v). (k, strip v)) (zip tag_keys vals)"
    using assms(1) by (auto simp: create_tag_mapping_def split: sum.splits)
  then show "map fst proposed_tags = tag_keys" and "map snd proposed_tags = map strip vals"
    using len by (simp_all add: case_prod_beta map_fst_zip flip: map_map zip_map2)
qed

section \<open>Properties of the custom prompt template\<close>

lemma contains_iff_sublist: "contains s p \<longleftrightarrow> sublist p s"
proof (induction s)
  case Nil
  then show ?case by simp
next
  case (Cons c cs)
  show ?case by (simp add: Cons.IH startswith_iff_prefix sublist_Cons_right)
qed

lemma startswith_split: "startswith s p \<Longrightarrow> s = p @ drop (length p) s"
  by (metis append_take_drop_id startswith_def)

lemma format_tags_token:
  "py_format_from [(str ''tags'', tg), (str ''content'', ct), (str ''filename'', fn)] None (str ''{tags}'' @ r)
     = emit tg (py_format_from [(str ''tags'', tg), (str ''content'', ct), (str ''filename'', fn)] None r)"
  by (simp add: lookup_field_def special_field_char_def is_ascii_digit_def)

lemma format_content_token:
  "py_format_from [(str ''tags'', tg), (str ''content'', ct), (str ''filename'', fn)] None (str ''{content}'' @ r)
     = emit ct (py_format_from [(str ''tags'', tg), (str ''content'', ct), (str ''filename'', fn)] None r)"
  by (simp add: lookup_field_def special_field_char_def is_ascii_digit_def)

lemma format_filename_token:
  "py_format_from [(str ''tags'', tg), (str ''content'', ct), (str ''filename'', fn)] None (str ''{filename}'' @ r)
     = emit fn (py_format_from [(str ''tags'', tg), (str ''content'', ct), (str ''filename'', fn)] None r)"
  by (simp add: lookup_field_def special_field_char_def is_ascii_digit_def)

lemma format_plain_char:
  "c \<noteq> 123 \<Longrightarrow> c \<noteq> 125 \<Longrightarrow>
   py_format_from kw None (c # cs) = emit [c] (py_format_from kw None cs)"
  by simp

lemma py_format_tokens:
  "braces_in_tokens_only t \<Longrightarrow>
   py_format_from [(str ''tags'', tg), (str ''content'', ct), (str ''filename'', fn)] None t = Inr (replace_tokens tg ct fn t)"
proof (induction t rule: braces_in_tokens_only.induct)
  case 1
  show ?case by simp
next
  case (2 c cs)
  let ?kw = "[(str ''tags'', tg), (str ''content'', ct), (str ''filename'', fn)]"
  consider (tags) "startswith (c # cs) (str ''{tags}'')"
    | (content) "\<not> startswith (c # cs) (str ''{tags}'')" "startswith (c # cs) (str ''{content}'')"
    | (filename) "\<not> startswith (c # cs) (str ''{tags}'')" "\<not> startswith (c # cs) (str ''{content}'')"
        "startswith (c # cs) (str ''{filename}'')"
    | (plain) "\<not> startswith (c # cs) (str ''{tags}'')" "\<not> startswith (c # cs) (str ''{content}'')"
        "\<not> startswith (c # cs) (str ''{filename}'')"
    by blast
  then show ?case
  proof cases
    case tags
    have len: "length (str ''{tags}'' :: pystr) = 6" by simp
    have s: "c # cs = str ''{tags}'' @ drop 6 (c # cs)"
      using startswith_split [OF tags] unfolding len .
    have b: "braces_in_tokens_only (drop 6 (c # cs))" using "2.prems" tags by simp
    have "py_format_from ?kw None (drop 6 (c # cs)) = Inr (replace_tokens tg ct fn (drop 6 (c # cs)))"
      using "2.IH"(1) [OF tags b] .
    then have "py_format_from ?kw None (str ''{tags}'' @ drop 6 (c # cs))
                 = Inr (tg @ replace_tokens tg ct fn (drop 6 (c # cs)))"
      unfolding format_tags_token by (simp add: emit_def)
    moreover have "py_format_from ?kw None (c # cs)
                 = py_format_from ?kw None (str ''{tags}'' @ drop 6 (c # cs))"
      by (rule arg_cong [OF s])
    ultimately have "py_format_from ?kw None (c # cs) = Inr (tg @ replace_tokens tg ct fn (drop 6 (c # cs)))"
      by simp
    then show ?thesis using tags by (simp only: replace_tokens.simps if_True)
  next
    case content
    have len: "length (str ''{content}'' :: pystr) = 9" by simp
    have s: "c # cs = str ''{content}'' @ drop 9 (c # cs)"
      using startswith_split [OF content(2)] unfolding len .
    have b: "braces_in_tokens_only (drop 9 (c # cs))" using "2.prems" content by simp
    have "py_format_from ?kw None (drop 9 (c # cs)) = Inr (replace_tokens tg ct fn (drop 9 (c # cs)))"
      using "2.IH"(2) [OF content b] .
    then have "py_format_from ?kw None (str ''{content}'' @ drop 9 (c # cs))
                 = Inr (ct @ replace_tokens tg ct fn (drop 9 (c # cs)))"
      unfolding format_content_token by (simp add: emit_def)
    moreover have "py_format_from ?kw None (c # cs)
                 = py_format_from ?kw None (str ''{content}'' @ drop 9 (c # cs))"
      by (rule arg_cong [OF s])
    ultimately have "py_format_from ?kw None (c # cs) = Inr (ct @ replace_tokens tg ct fn (drop 9 (c # cs)))"
      by simp
    then show ?thesis using content by (simp only: replace_tokens.simps if_True if_False)
  next
    case filename
    have len: "length (str ''{filename}'' :: pystr) = 10" by simp
    have s: "c # cs = str ''{filename}'' @ drop 10 (c # cs)"
      using startswith_split [OF filename(3)] unfolding len .
    have b: "braces_in_tokens_only (drop 10 (c # cs))" using "2.prems" filename by simp
    have "py_format_from ?kw None (drop 10 (c # cs)) = Inr (replace_tokens tg ct fn (drop 10 (c # cs)))"
      using "2.IH"(3) [OF filename b] .
    then have "py_format_from ?kw None (str ''{filename}'' @ drop 10 (c # cs))
                 = Inr (fn @ replace_tokens tg ct fn (drop 10 (c # cs)))"
      unfolding format_filename_token by (simp add: emit_def)
    moreover have "py_format_from ?kw None (c # cs)
                 = py_format_from ?kw None (str ''{filename}'' @ drop 10 (c # cs))"
      by (rule arg_cong [OF s])
    ultimately have "py_format_from ?kw None (c # cs) = Inr (fn @ replace_tokens tg ct fn (drop 10 (c # cs)))"
      by simp
    then show ?thesis using filename by (simp only: replace_tokens.simps if_True if_False)
  next
    case plain
    then have b: "c \<noteq> 123" "c \<noteq> 125" "braces_in_tokens_only cs" using "2.prems" by simp_all
    have "py_format_from ?kw None cs = Inr (replace_tokens tg ct fn cs)"
      using "2.IH"(4) [OF plain b(3)] .
    then have "py_format_from ?kw None (c # cs) = Inr (c # replace_tokens tg ct fn cs)"
      unfolding format_plain_char [OF b(1,2)] by (simp add: emit_def)
    then show ?thesis using plain by (simp only: replace_tokens.simps if_False)
  qed
qed

lemmas fmt_eval = format_custom_llm_prompt_def required_placeholders_def startswith_def
  py_format_def lookup_field_def emit_def special_field_char_def is_ascii_digit_def
  missing_placeholders_message_def repr_str_list_def

text \<open>
  C9 (as amended). For every custom template, when at least one of the tokens \<open>{tags}\<close>,
  \<open>{content}\<close>, \<open>{filename}\<close> does not occur in it, building the prompt fails with a
  \<open>ValueError\<close> whose message lists exactly the absent tokens. When all three occur and
  the template has no brace other than those of the tokens, the result is the template
  with the tokens replaced by the schema, the content and the object name.
\<close>

theorem format_custom_llm_prompt_cases:
  "((\<exists>p \<in> set required_placeholders. \<not> sublist p custom_template) \<longrightarrow>
      format_custom_llm_prompt custom_template tags_text content_preview filename =
        Inl (ValueError (missing_placeholders_message
              (filter (\<lambda>p. \<not> sublist p custom_template) required_placeholders))))
   \<and> ((\<forall>p \<in> set required_placeholders. sublist p custom_template)
        \<and> braces_in_tokens_only custom_template \<longrightarrow>
      format_custom_llm_prompt custom_template tags_text content_preview filename =
        Inr (replace_tokens tags_text content_preview filename custom_template))"
proof (intro conjI impI)
  assume "\<exists>p \<in> set required_placeholders. \<not> sublist p custom_template"
  then have "filter (\<lambda>p. \<not> sublist p custom_template) required_placeholders \<noteq> []"
    by (simp add: filter_empty_conv)
  then show "format_custom_llm_prompt custom_template tags_text content_preview filename =
        Inl (ValueError (missing_placeholders_message
              (filter (\<lambda>p. \<not> sublist p custom_template) required_placeholders)))"
    by (simp add: format_custom_llm_prompt_def contains_iff_sublist)
next
  assume a: "(\<forall>p \<in> set required_placeholders. sublist p custom_template)
        \<and> braces_in_tokens_only custom_template"
  then have "filter (\<lambda>p. \<not> sublist p custom_template) required_placeholders = []"
    by (simp add: filter_empty_conv)
  moreover have "py_format_from [(str ''tags'', tags_text), (str ''content'', content_preview),
                    (str ''filename'', filename)] None custom_template
                 = Inr (replace_tokens tags_text content_preview filename custom_template)"
    using a by (intro py_format_tokens) simp
  ultimately show "format_custom_llm_prompt custom_template tags_text content_preview filename =
        Inr (replace_tokens tags_text content_preview filename custom_template)"
    by (simp add: format_custom_llm_prompt_def contains_iff_sublist py_format_def)
qed

theorem format_custom_llm_prompt_cases_witness:
  "sublist (str ''{tags}'') (str ''Schema {tags} file {filename}: {content}.'')
   \<and> sublist (str ''{content}'') (str ''Schema {tags} file {filename}: {content}.'')
   \<and> sublist (str ''{filename}'') (str ''Schema {tags} file {filename}: {content}.'')
   \<and> braces_in_tokens_only (str ''Schema {tags} file {filename}: {content}.'')
   \<and> format_custom_llm_prompt (str ''Schema {tags} file {filename}: {content}.'')
        (str ''T'') (str ''C'') (str ''F'') = Inr (str ''Schema T file F: C.'')
   \<and> \<not> sublist (str ''{filename}'') (str ''Schema {tags}, {content}.'')
   \<and> format_custom_llm_prompt (str ''Schema {tags}, {content}.'')
        (str ''T'') (str ''C'') (str ''F'')
       = Inl (ValueError (missing_placeholders_message [str ''{filename}'']))"
proof -
  let ?t = "str ''Schema {tags} file {filename}: {content}.''"
  let ?u = "str ''Schema {tags}, {content}.''"
  have p1: "sublist (str ''{tags}'') ?t" unfolding contains_iff_sublist [symmetric]
    by (simp add: startswith_def)
  have p2: "sublist (str ''{content}'') ?t" unfolding contains_iff_sublist [symmetric]
    by (simp add: startswith_def)
  have p3: "sublist (str ''{filename}'') ?t" unfolding contains_iff_sublist [symmetric]
    by (simp add: startswith_def)
  have b: "braces_in_tokens_only ?t" by (simp add: startswith_def)
  have q1: "sublist (str ''{tags}'') ?u" unfolding contains_iff_sublist [symmetric]
    by (simp add: startswith_def)
  have q2: "sublist (str ''{content}'') ?u" unfolding contains_iff_sublist [symmetric]
    by (simp add: startswith_def)
  have q3: "\<not> sublist (str ''{filename}'') ?u" unfolding contains_iff_sublist [symmetric]
    by (simp add: startswith_def)
  have v: "replace_tokens (str ''T'') (str ''C'') (str ''F'') ?t = str ''Schema T file F: C.''"
    by (simp add: startswith_def)
  have r1: "format_custom_llm_prompt ?t (str ''T'') (str ''C'') (str ''F'')
              = Inr (str ''Schema T file F: C.'')"
    using format_custom_llm_prompt_cases [of ?t "str ''T''" "str ''C''" "str ''F''"]
      p1 p2 p3 b unfolding v by (simp add: required_placeholders_def)
  have r2: "format_custom_llm_prompt ?u (str ''T'') (str ''C'') (str ''F'')
              = Inl (ValueError (missing_placeholders_message [str ''{filename}'']))"
    using format_custom_llm_prompt_cases [of ?u "str ''T''" "str ''C''" "str ''F''"]
      q1 q2 q3 by (simp add: required_placeholders_def)
  show ?thesis
    by (intro conjI) (rule p1, rule p2, rule p3, rule b, rule r1, rule q3, rule r2)
qed

text \<open>
  C9 as stated fails: a template can hold all three tokens and one more field, and then
  building the prompt raises \<open>KeyError\<close> for that field instead of returning the template
  with the tokens replaced.
\<close>

theorem format_custom_llm_prompt_extra_field_counterexample:
  "contains (str ''{tags}{content}{filename}{x}'') (str ''{tags}'')
   \<and> contains (str ''{tags}{content}{filename}{x}'') (str ''{content}'')
   \<and> contains (str ''{tags}{content}{filename}{x}'') (str ''{filename}'')
   \<and> format_custom_llm_prompt (str ''{tags}{content}{filename}{x}'')
        (str ''T'') (str ''C'') (str ''F'') = Inl (KeyError (str ''x''))"
  by (simp add: fmt_eval)

text \<open>
  Doubled braces are escapes of \<open>format\<close>: a token between them is printed, not replaced.
\<close>

lemma format_custom_llm_prompt_escaped_token:
  "format_custom_llm_prompt (str ''{{tags}}{content}{filename}'')
     (str ''T'') (str ''C'') (str ''F'') = Inr (str ''{tags}CF'')"
  by (simp add: fmt_eval)

section \<open>Properties of the orchestrator\<close>

lemma dict_set_map_fst:
  "map fst (dict_set d k v) = (if k \<in> set (map fst d) then map fst d else map fst d @ [k])"
  by (induction d k v rule: dict_set.induct) auto

lemma dict_set_keys: "set (map fst (dict_set d k v)) = insert k (set (map fst d))"
  unfolding dict_set_map_fst by auto

lemma dict_set_entries: "set (dict_set d k v) \<subseteq> insert (k, v) (set d)"
  by (induction d k v rule: dict_set.induct) auto

lemma dict_set_append: "k \<notin> set (map fst d) \<Longrightarrow> map fst (dict_set d k v) = map fst d @ [k]"
  by (simp add: dict_set_fresh)

text \<open>The four shapes of the record of one object.\<close>

lemma process_object_shape:
  assumes "process_object self pmode pmb k st = (t, st')"
  shows "(\<exists>reason. t = \<lparr>existing = [], proposed = None, applied = None,
                        skipped_reason = Some reason\<rparr>
            \<and> reason \<noteq> [] \<and> set_tags_log st' = set_tags_log st)
       \<or> (\<exists>ex pr. pmode = PREVIEW
            \<and> t = \<lparr>existing = ex, proposed = Some pr, applied = None, skipped_reason = None\<rparr>
            \<and> set_tags_log st' = set_tags_log st)
       \<or> (\<exists>ex pr reason. pmode = APPLY
            \<and> t = \<lparr>existing = ex, proposed = Some pr, applied = None,
                   skipped_reason = Some reason\<rparr>
            \<and> reason \<noteq> [])
       \<or> (\<exists>ex pr final. pmode = APPLY
            \<and> t = \<lparr>existing = ex, proposed = Some pr, applied = Some final,
                   skipped_reason = None\<rparr>
            \<and> set_tags_log st' = set_tags_log st @ [(k, final)])"
  using assms
  by (auto simp: process_object_def apply_object_def create_object_tags_result_def Let_def
           split: prod.splits sum.splits attempt.splits ProcessingMode.splits)

lemma process_loop_records:
  assumes step: "\<And>k st t st'. process_object self pmode pmb k st = (t, st') \<Longrightarrow> P t"
  shows "process_loop self pmode pmb objs result st = (result', st') \<Longrightarrow>
         \<forall>(uri, t) \<in> set (results result). P t \<Longrightarrow>
         \<forall>(uri, t) \<in> set (results result'). P t"
proof (induction objs arbitrary: result st)
  case Nil
  then show ?case by simp
next
  case (Cons k ks)
  obtain t st1 where po: "process_object self pmode pmb k st = (t, st1)"
    by (cases "process_object self pmode pmb k st")
  with Cons.prems(1) have loop: "process_loop self pmode pmb ks (add_result result k t) st1 = (result', st')"
    by simp
  have "P t" using po by (rule step)
  then have "\<forall>(uri, t) \<in> set (results (add_result result k t)). P t"
    using Cons.prems(2) dict_set_entries [of "results result" k t]
    by (auto simp: add_result_def)
  with loop show ?case by (rule Cons.IH)
qed


lemma process_loop_keys:
  "process_loop self pmode pmb objs result st = (result', st') \<Longrightarrow>
   set (map fst (results result')) = set (map fst (results result)) \<union> set objs"
proof (induction objs arbitrary: result st)
  case Nil
  then show ?case by simp
next
  case (Cons k ks)
  obtain t st1 where po: "process_object self pmode pmb k st = (t, st1)"
    by (cases "process_object self pmode pmb k st")
  with Cons.prems have "process_loop self pmode pmb ks (add_result result k t) st1 = (result', st')"
    by simp
  from Cons.IH [OF this]
  have "set (map fst (results result'))
          = set (map fst (dict_set (results result) k t)) \<union> set ks"
    by (simp add: add_result_def)
  then have "set (map fst (results result'))
          = insert k (set (map fst (results result))) \<union> set ks"
    by (simp only: dict_set_keys)
  then show ?case by auto
qed

lemma process_loop_order:
  "process_loop self pmode pmb objs result st = (result', st') \<Longrightarrow>
   distinct objs \<Longrightarrow> set objs \<inter> set (map fst (results result)) = {} \<Longrightarrow>
   map fst (results result') = map fst (results result) @ objs"
proof (induction objs arbitrary: result st)
  case Nil
  then show ?case by simp
next
  case (Cons k ks)
  obtain t st1 where po: "process_object self pmode pmb k st = (t, st1)"
    by (cases "process_object self pmode pmb k st")
  with Cons.prems(1) have loop: "process_loop self pmode pmb ks (add_result result k t) st1 = (result', st')"
    by simp
  have fresh: "k \<notin> set (map fst (results result))" using Cons.prems(3) by auto
  then have keys: "map fst (results (add_result result k t)) = map fst (results result) @ [k]"
    by (simp add: add_result_def dict_set_append)
  have "set ks \<inter> set (map fst (results (add_result result k t))) = {}"
    unfolding keys using Cons.prems(2,3) by auto
  with loop Cons.prems(2) have "map fst (results result') = map fst (results (add_result result k t)) @ ks"
    by (intro Cons.IH) simp_all
  then show ?case by (simp add: keys)
qed


text \<open>What a run returns, in terms of the loop.\<close>

lemma process_objects_cases:
  assumes "process_objects self pmode mb st = (r, st')"
  obtains (listing_failed) e w where
      "list_objects (storage_provider self) (world st) = (Inl e, w)"
      "r = Inl (SmartCloudTagError (str ''Failed to process objects: '' @ exc_str (lib self) e))"
      "st' = st\<lparr>world := w\<rparr>"
  | (no_objects) w where
      "list_objects (storage_provider self) (world st) = (Inr [], w)"
      "r = Inr \<lparr>mode = pmode, config = tagger_config self, results = [],
                summary = Summary_message (str ''No objects found in bucket'')\<rparr>"
      "st' = st\<lparr>world := w\<rparr>"
  | (processed) objects w result' pmb where
      "list_objects (storage_provider self) (world st) = (Inr objects, w)" "objects \<noteq> []"
      "process_loop self pmode pmb objects
         \<lparr>mode = pmode, config = tagger_config self, results = [], summary = Summary_empty\<rparr>
         (st\<lparr>world := w\<rparr>) = (result', st')"
      "r = Inr (result'\<lparr>summary := Summary_stats (get_summary_stats result')\<rparr>)"
  using assms
  by (auto simp: process_objects_def Let_def split: prod.splits sum.splits if_splits)

lemma attempt_object_raises:
  assumes "is_supported_file_type (storage_provider self) obj_key w = (Inr True, w1)"
  shows "get_object_tags (storage_provider self) obj_key w1 = (Inl e, w2) \<Longrightarrow>
           attempt_object self pmb obj_key w = (Inl e, w2)"
    and "get_object_tags (storage_provider self) obj_key w1 = (Inr ex, w2) \<Longrightarrow>
         get_object_content (storage_provider self) obj_key pmb w2 = (Inl e, w3) \<Longrightarrow>
           attempt_object self pmb obj_key w = (Inl e, w3)"
    and "get_object_tags (storage_provider self) obj_key w1 = (Inr ex, w2) \<Longrightarrow>
         get_object_content (storage_provider self) obj_key pmb w2 = (Inr (bs, ft), w3) \<Longrightarrow>
         parse_file_content (lib self) bs ft = Inl e \<Longrightarrow>
           attempt_object self pmb obj_key w = (Inl e, w3)"
    and "get_object_tags (storage_provider self) obj_key w1 = (Inr ex, w2) \<Longrightarrow>
         get_object_content (storage_provider self) obj_key pmb w2 = (Inr (bs, ft), w3) \<Longrightarrow>
         parse_file_content (lib self) bs ft = Inr text \<Longrightarrow>
         truncate_content text pmb = Inr shortened \<Longrightarrow>
         generate_tags (llm_provider self)
           \<lparr>req_content = shortened, req_tags = cfg_tags (tagger_config self), req_filename = obj_key,
            req_custom_prompt_template = custom_prompt_template self\<rparr> w3 = (Inl e, w4) \<Longrightarrow>
           attempt_object self pmb obj_key w = (Inl e, w4)"
  using assms by (simp_all add: attempt_object_def and_then_def)

lemmas run_eval = example_tagger_def example_storage_def example_llm_def example_library_def
  example_objects_def start_state_def ten_tags_def
  process_objects_def process_object_def attempt_object_def apply_object_def and_then_def
  add_result_def create_object_tags_result_def get_summary_stats_def
  parse_file_content_def truncate_content_def utf8_encode_cp_def is_continuation_byte_def
  create_tag_mapping_def validate_tag_values_def get_provider_tag_limits_def
  merge_and_validate_tags_def validate_existing_tags_def dict_update_def
  is_blank_def strip_def strip_where_def py_isspace_def show_nat.simps
  preview_tags_def apply_tags_def Let_def

text \<open>The loop of a run builds the dictionary of the records of \<open>object_trace\<close>.\<close>

lemma map_of_dict_set: "map_of (dict_set d k v) = (map_of d)(k \<mapsto> v)"
  by (induction d k v rule: dict_set.induct) (auto simp: fun_eq_iff)

lemma map_of_foldl_dict_set_other:
  "k \<notin> set (map fst kvs) \<Longrightarrow>
   map_of (foldl (\<lambda>d (k, t). dict_set d k t) d kvs) k = map_of d k"
  by (induction kvs arbitrary: d) (auto simp: map_of_dict_set)

lemma map_of_foldl_dict_set_last:
  "k \<notin> set (map fst later) \<Longrightarrow>
   map_of (foldl (\<lambda>d (k, t). dict_set d k t) d (earlier @ (k, v) # later)) k = Some v"
  by (simp add: map_of_foldl_dict_set_other map_of_dict_set)

lemma foldl_dict_set_keys:
  "set (map fst (foldl (\<lambda>d (k, t). dict_set d k t) d kvs)) = set (map fst d) \<union> set (map fst kvs)"
proof (induction kvs arbitrary: d)
  case Nil
  then show ?case by simp
next
  case (Cons kv kvs)
  obtain k t where kv: "kv = (k, t)" by (cases kv)
  have "set (map fst (foldl (\<lambda>d (k, t). dict_set d k t) (dict_set d k t) kvs))
          = set (map fst (dict_set d k t)) \<union> set (map fst kvs)"
    by (rule Cons.IH)
  also have "\<dots> = insert k (set (map fst d)) \<union> set (map fst kvs)"
    by (simp only: dict_set_keys)
  finally show ?case by (simp add: kv)
qed

lemma foldl_dict_set_distinct:
  assumes "distinct (map fst kvs)"
  shows "foldl (\<lambda>d (k, t). dict_set d k t) [] kvs = kvs"
proof -
  have "distinct (map fst ([] :: ('a \<times> 'b) list) @ map fst kvs)" using assms by simp
  from foldl_dict_set_fresh [OF this, of "\<lambda>x. x"] show ?thesis by simp
qed

lemma object_trace_keys: "map fst (fst (object_trace self pmode pmb objs st)) = objs"
  by (induction objs arbitrary: st) (simp_all add: case_prod_beta)

lemma object_trace_append:
  "object_trace self pmode pmb (xs @ ys) st =
     (fst (object_trace self pmode pmb xs st)
        @ fst (object_trace self pmode pmb ys (snd (object_trace self pmode pmb xs st))),
      snd (object_trace self pmode pmb ys (snd (object_trace self pmode pmb xs st))))"
  by (induction xs arbitrary: st) (simp_all add: case_prod_beta)

lemma process_loop_trace:
  "process_loop self pmode pmb objs result st =
     (result\<lparr>results := foldl (\<lambda>d (k, t). dict_set d k t) (results result)
                           (fst (object_trace self pmode pmb objs st))\<rparr>,
      snd (object_trace self pmode pmb objs st))"
  by (induction objs arbitrary: result st) (simp_all add: add_result_def case_prod_beta)

lemma process_object_raises:
  "attempt_object self pmb obj_key (world st) = (Inl e, w) \<Longrightarrow>
   process_object self pmode pmb obj_key st =
     (\<lparr>existing = [], proposed = None, applied = None,
       skipped_reason = Some (str ''Processing error: '' @ exc_str (lib self) e)\<rparr>,
      st\<lparr>world := w\<rparr>)"
  by (simp add: process_object_def create_object_tags_result_def)

lemma process_objects_trace:
  assumes "list_objects (storage_provider self) (world st) = (Inr objects, w0)"
    and "objects \<noteq> []"
    and "object_trace self pmode (effective_max_bytes self mb) objects (st\<lparr>world := w0\<rparr>)
           = (records, st_end)"
  shows "\<exists>result. process_objects self pmode mb st = (Inr result, st_end)
           \<and> results result = foldl (\<lambda>d (k, t). dict_set d k t) [] records"
  using assms
  by (simp add: process_objects_def effective_max_bytes_def process_loop_trace Let_def)

text \<open>
  C5. In a run whose enumeration succeeds, let the body of the \<open>try\<close> of one enumerated
  object raise before the branch on the mode (while fetching, decoding, prompting or
  parsing), in the state the objects before it have left. Then the exception does not
  reach the caller: the run returns a result. The records of the result are those of the
  objects before, then the record of the failing object, then the records of the objects
  after it, each of these processed in turn from the state the failure left; assigned in
  this order to the dictionary of results. The record of the failing object has an empty
  mapping of existing tags, no proposed tags, no applied tags and a skip reason that is not
  empty, and it is the record the result holds for that object (the object not being
  enumerated again later). Every enumerated object has a record in the result.
\<close>

theorem object_failure_contained:
  assumes "list_objects (storage_provider self) (world st)
             = (Inr (objs_before @ obj_key # objs_after), w0)"
    and "obj_key \<notin> set objs_after"
    and "object_trace self pmode (effective_max_bytes self mb) objs_before (st\<lparr>world := w0\<rparr>)
           = (recs_before, st_k)"
    and "attempt_object self (effective_max_bytes self mb) obj_key (world st_k) = (Inl e, w)"
    and "object_trace self pmode (effective_max_bytes self mb) objs_after (st_k\<lparr>world := w\<rparr>)
           = (recs_after, st_end)"
  shows "\<exists>result. process_objects self pmode mb st = (Inr result, st_end)
     \<and> results result =
         foldl (\<lambda>d (k, t). dict_set d k t) []
           (recs_before
            @ (obj_key, \<lparr>existing = [], proposed = None, applied = None,
                         skipped_reason =
                           Some (str ''Processing error: '' @ exc_str (lib self) e)\<rparr>)
            # recs_after)
     \<and> map_of (results result) obj_key =
         Some \<lparr>existing = [], proposed = None, applied = None,
               skipped_reason = Some (str ''Processing error: '' @ exc_str (lib self) e)\<rparr>
     \<and> str ''Processing error: '' @ exc_str (lib self) e \<noteq> []
     \<and> map fst recs_before = objs_before
     \<and> map fst recs_after = objs_after
     \<and> set (map fst (results result)) = set (objs_before @ obj_key # objs_after)
     \<and> (distinct (objs_before @ obj_key # objs_after) \<longrightarrow>
          results result =
            recs_before
            @ (obj_key, \<lparr>existing = [], proposed = None, applied = None,
                         skipped_reason =
                           Some (str ''Processing error: '' @ exc_str (lib self) e)\<rparr>)
            # recs_after)"
proof -
  let ?pmb = "effective_max_bytes self mb"
  let ?skip = "\<lparr>existing = [], proposed = None, applied = None,
                skipped_reason = Some (str ''Processing error: '' @ exc_str (lib self) e)\<rparr>"
  let ?records = "recs_before @ (obj_key, ?skip) # recs_after"
  have kb: "map fst recs_before = objs_before"
    using object_trace_keys [of self pmode ?pmb objs_before "st\<lparr>world := w0\<rparr>"] assms(3) by simp
  have ka: "map fst recs_after = objs_after"
    using object_trace_keys [of self pmode ?pmb objs_after "st_k\<lparr>world := w\<rparr>"] assms(5) by simp
  have one: "process_object self pmode ?pmb obj_key st_k = (?skip, st_k\<lparr>world := w\<rparr>)"
    using assms(4) by (rule process_object_raises)
  have "object_trace self pmode ?pmb (obj_key # objs_after) st_k
          = ((obj_key, ?skip) # recs_after, st_end)"
    using one assms(5) by simp
  then have tr: "object_trace self pmode ?pmb (objs_before @ obj_key # objs_after)
                   (st\<lparr>world := w0\<rparr>) = (?records, st_end)"
    using assms(3) by (simp add: object_trace_append)
  have "objs_before @ obj_key # objs_after \<noteq> []" by simp
  from process_objects_trace [OF assms(1) this tr]
  obtain result where run: "process_objects self pmode mb st = (Inr result, st_end)"
    and res: "results result = foldl (\<lambda>d (k, t). dict_set d k t) [] ?records"
    by (elim exE conjE)
  have "obj_key \<notin> set (map fst recs_after)" using assms(2) ka by simp
  then have lk: "map_of (results result) obj_key = Some ?skip"
    unfolding res by (rule map_of_foldl_dict_set_last)
  have keys: "set (map fst (results result)) = set (objs_before @ obj_key # objs_after)"
    unfolding res foldl_dict_set_keys using kb ka by simp
  have dist: "results result = ?records" if "distinct (objs_before @ obj_key # objs_after)"
  proof -
    have "map fst ?records = objs_before @ obj_key # objs_after" using kb ka by simp
    with that have "distinct (map fst ?records)" by simp
    then show ?thesis unfolding res by (rule foldl_dict_set_distinct)
  qed
  have ne: "str ''Processing error: '' @ exc_str (lib self) e \<noteq> []" by simp
  from run res lk ne kb ka keys dist show ?thesis by blast
qed

theorem object_failure_contained_witness:
  "list_objects (storage_provider (example_tagger example_objects)) (world start_state)
     = (Inr ([str ''report.txt'', str ''image.png''] @ str ''broken.txt'' # [str ''full.txt'']), ())
   \<and> str ''broken.txt'' \<notin> set [str ''full.txt'']
   \<and> object_trace (example_tagger example_objects) APPLY
        (effective_max_bytes (example_tagger example_objects) None)
        [str ''report.txt'', str ''image.png''] (start_state\<lparr>world := ()\<rparr>)
       = ([(str ''report.txt'',
            \<lparr>existing = [(str ''department'', str ''labs'')],
             proposed = Some [(str ''department'', str ''billing'')],
             applied = Some [(str ''department'', str ''billing'')],
             skipped_reason = None\<rparr>),
           (str ''image.png'',
            \<lparr>existing = [], proposed = None, applied = None,
             skipped_reason = Some (str ''Unsupported file type'')\<rparr>)],
          \<lparr>world = (),
           set_tags_log = [(str ''report.txt'', [(str ''department'', str ''billing'')])]\<rparr>)
   \<and> attempt_object (example_tagger example_objects)
        (effective_max_bytes (example_tagger example_objects) None) (str ''broken.txt'') ()
       = (Inl (StorageError (str ''Failed to get object content'')), ())
   \<and> object_trace (example_tagger example_objects) APPLY
        (effective_max_bytes (example_tagger example_objects) None) [str ''full.txt'']
        \<lparr>world = (),
         set_tags_log = [(str ''report.txt'', [(str ''department'', str ''billing'')])]\<rparr>
       = ([(str ''full.txt'',
            \<lparr>existing = ten_tags, proposed = Some [(str ''department'', str ''billing'')],
             applied = None,
             skipped_reason =
               Some (str ''Failed to apply tags: Total tags (11) would exceed the limit of 10'')\<rparr>)],
          \<lparr>world = (),
           set_tags_log = [(str ''report.txt'', [(str ''department'', str ''billing'')])]\<rparr>)
   \<and> (\<exists>result.
         process_objects (example_tagger example_objects) APPLY None start_state
           = (Inr result,
              \<lparr>world = (),
               set_tags_log = [(str ''report.txt'', [(str ''department'', str ''billing'')])]\<rparr>)
         \<and> results result =
             [(str ''report.txt'',
               \<lparr>existing = [(str ''department'', str ''labs'')],
                proposed = Some [(str ''department'', str ''billing'')],
                applied = Some [(str ''department'', str ''billing'')],
                skipped_reason = None\<rparr>),
              (str ''image.png'',
               \<lparr>existing = [], proposed = None, applied = None,
                skipped_reason = Some (str ''Unsupported file type'')\<rparr>),
              (str ''broken.txt'',
               \<lparr>existing = [], proposed = None, applied = None,
                skipped_reason = Some (str ''Processing error: Failed to get object content'')\<rparr>),
              (str ''full.txt'',
               \<lparr>existing = ten_tags, proposed = Some [(str ''department'', str ''billing'')],
                applied = None,
                skipped_reason =
                  Some (str ''Failed to apply tags: Total tags (11) would exceed the limit of 10'')\<rparr>)]
         \<and> map_of (results result) (str ''broken.txt'') =
             Some \<lparr>existing = [], proposed = None, applied = None,
                   skipped_reason = Some (str ''Processing error: Failed to get object content'')\<rparr>)"
proof -
  let ?T = "example_tagger example_objects"
  let ?pmb = "effective_max_bytes ?T None"
  let ?written = "[(str ''report.txt'', [(str ''department'', str ''billing'')])]"
  let ?st_k = "\<lparr>world = (), set_tags_log = ?written\<rparr>"
  let ?before = "[(str ''report.txt'',
            \<lparr>existing = [(str ''department'', str ''labs'')],
             proposed = Some [(str ''department'', str ''billing'')],
             applied = Some [(str ''department'', str ''billing'')],
             skipped_reason = None\<rparr>),
           (str ''image.png'',
            \<lparr>existing = [], proposed = None, applied = None,
             skipped_reason = Some (str ''Unsupported file type'')\<rparr>)]"
  let ?after = "[(str ''full.txt'',
            \<lparr>existing = ten_tags, proposed = Some [(str ''department'', str ''billing'')],
             applied = None,
             skipped_reason =
               Some (str ''Failed to apply tags: Total tags (11) would exceed the limit of 10'')\<rparr>)]"
  have h1: "list_objects (storage_provider ?T) (world start_state)
     = (Inr ([str ''report.txt'', str ''image.png''] @ str ''broken.txt'' # [str ''full.txt'']), ())"
    by (simp add: run_eval)
  have h2: "str ''broken.txt'' \<notin> set [str ''full.txt'']" by simp
  have h3: "object_trace ?T APPLY ?pmb [str ''report.txt'', str ''image.png'']
              (start_state\<lparr>world := ()\<rparr>) = (?before, ?st_k)"
    by (simp add: run_eval effective_max_bytes_def)
  have h4: "attempt_object ?T ?pmb (str ''broken.txt'') ()
              = (Inl (StorageError (str ''Failed to get object content'')), ())"
    by (simp add: run_eval effective_max_bytes_def)
  have h5: "object_trace ?T APPLY ?pmb [str ''full.txt''] ?st_k = (?after, ?st_k)"
    by (simp add: run_eval effective_max_bytes_def)
  have h4': "attempt_object ?T ?pmb (str ''broken.txt'') (world ?st_k)
              = (Inl (StorageError (str ''Failed to get object content'')), ())"
    using h4 by simp
  have h5': "object_trace ?T APPLY ?pmb [str ''full.txt''] (?st_k\<lparr>world := ()\<rparr>) = (?after, ?st_k)"
    using h5 by simp
  have d: "distinct ([str ''report.txt'', str ''image.png''] @ str ''broken.txt'' # [str ''full.txt''])"
    by simp
  have x: "exc_str (lib ?T) (StorageError (str ''Failed to get object content''))
             = str ''Failed to get object content''"
    by (simp add: example_tagger_def example_library_def)
  from object_failure_contained [OF h1 h2 h3 h4' h5'] d
  have r: "\<exists>result. process_objects ?T APPLY None start_state = (Inr result, ?st_k)
         \<and> results result =
             ?before
             @ (str ''broken.txt'',
                \<lparr>existing = [], proposed = None, applied = None,
                 skipped_reason = Some (str ''Processing error: Failed to get object content'')\<rparr>)
             # ?after
         \<and> map_of (results result) (str ''broken.txt'') =
             Some \<lparr>existing = [], proposed = None, applied = None,
                   skipped_reason = Some (str ''Processing error: Failed to get object content'')\<rparr>"
    unfolding x by (elim exE conjE, intro exI conjI) (assumption, simp, simp)
  then have r': "\<exists>result. process_objects ?T APPLY None start_state = (Inr result, ?st_k)
         \<and> results result =
             [(str ''report.txt'',
               \<lparr>existing = [(str ''department'', str ''labs'')],
                proposed = Some [(str ''department'', str ''billing'')],
                applied = Some [(str ''department'', str ''billing'')],
                skipped_reason = None\<rparr>),
              (str ''image.png'',
               \<lparr>existing = [], proposed = None, applied = None,
                skipped_reason = Some (str ''Unsupported file type'')\<rparr>),
              (str ''broken.txt'',
               \<lparr>existing = [], proposed = None, applied = None,
                skipped_reason = Some (str ''Processing error: Failed to get object content'')\<rparr>),
              (str ''full.txt'',
               \<lparr>existing = ten_tags, proposed = Some [(str ''department'', str ''billing'')],
                applied = None,
                skipped_reason =
                  Some (str ''Failed to apply tags: Total tags (11) would exceed the limit of 10'')\<rparr>)]
         \<and> map_of (results result) (str ''broken.txt'') =
             Some \<lparr>existing = [], proposed = None, applied = None,
                   skipped_reason = Some (str ''Processing error: Failed to get object content'')\<rparr>"
    by simp
  show ?thesis by (intro conjI) (rule h1, rule h2, rule h3, rule h4, rule h5, rule r')
qed



text \<open>A preview does not depend on what the set-tags operation of the backend does.\<close>

lemma attempt_object_ignores_set_object_tags:
  "attempt_object (self\<lparr>storage_provider := (storage_provider self)\<lparr>set_object_tags := f\<rparr>\<rparr>)
     pmb obj_key w = attempt_object self pmb obj_key w"
  by (simp add: attempt_object_def cong: if_cong)

lemma process_object_ignores_set_object_tags:
  "process_object (self\<lparr>storage_provider := (storage_provider self)\<lparr>set_object_tags := f\<rparr>\<rparr>)
     PREVIEW pmb obj_key st = process_object self PREVIEW pmb obj_key st"
  by (simp add: process_object_def attempt_object_ignores_set_object_tags
           split: prod.splits sum.splits attempt.splits)

lemma process_loop_ignores_set_object_tags:
  "process_loop (self\<lparr>storage_provider := (storage_provider self)\<lparr>set_object_tags := f\<rparr>\<rparr>)
     PREVIEW pmb objs result st = process_loop self PREVIEW pmb objs result st"
  by (induction objs arbitrary: result st)
     (simp_all add: process_object_ignores_set_object_tags split: prod.splits)

lemma preview_tags_ignores_set_object_tags:
  "preview_tags (self\<lparr>storage_provider := (storage_provider self)\<lparr>set_object_tags := f\<rparr>\<rparr>) mb st
     = preview_tags self mb st"
  by (simp add: preview_tags_def process_objects_def process_loop_ignores_set_object_tags Let_def
           split: prod.splits sum.splits cong: option.case_cong if_cong)

text \<open>The log is not idle: the same bucket in Apply mode is written once.\<close>

lemma apply_tags_example_writes:
  "set_tags_log (snd (apply_tags (example_tagger example_objects) None start_state))
     = [(str ''report.txt'', [(str ''department'', str ''billing'')])]"
  by (simp add: run_eval)

lemma apply_object_failure:
  "merge_and_validate_tags ex pr (map fst (cfg_tags (tagger_config self)))
       (storage_provider_type self) = Inl e \<Longrightarrow>
   apply_object self obj_key ex pr s =
     (\<lparr>existing = ex, proposed = Some pr, applied = None,
       skipped_reason = Some (str ''Failed to apply tags: '' @ exc_str (lib self) e)\<rparr>, s)"
  by (simp add: apply_object_def create_object_tags_result_def)

lemma apply_object_write_failure:
  "merge_and_validate_tags ex pr (map fst (cfg_tags (tagger_config self)))
       (storage_provider_type self) = Inr final \<Longrightarrow>
   set_object_tags (storage_provider self) obj_key final (world s) = (Inl e, w) \<Longrightarrow>
   fst (apply_object self obj_key ex pr s) =
     \<lparr>existing = ex, proposed = Some pr, applied = None,
      skipped_reason = Some (str ''Failed to apply tags: '' @ exc_str (lib self) e)\<rparr>"
  by (simp add: apply_object_def create_object_tags_result_def Let_def)

text \<open>
  C7. Every record of a result returned by preview or apply satisfies: when applied tags
  are present, the skip reason is absent and proposed tags are present; when the skip
  reason is present, applied tags are absent. In Apply mode, when the merge or the write
  fails, the record has a skip reason, no applied tags, and keeps the proposed tags.
\<close>

theorem object_records_invariant:
  assumes "preview_tags self mb st = (Inr result, st') \<or> apply_tags self mb st = (Inr result, st')"
  shows "(\<forall>(uri, t) \<in> set (results result).
            (applied t \<noteq> None \<longrightarrow> skipped_reason t = None \<and> proposed t \<noteq> None)
            \<and> (skipped_reason t \<noteq> None \<longrightarrow> applied t = None))
       \<and> (\<forall>obj_key ex pr e s.
            merge_and_validate_tags ex pr (map fst (cfg_tags (tagger_config self)))
              (storage_provider_type self) = Inl e \<longrightarrow>
            apply_object self obj_key ex pr s =
              (\<lparr>existing = ex, proposed = Some pr, applied = None,
                skipped_reason = Some (str ''Failed to apply tags: '' @ exc_str (lib self) e)\<rparr>, s))
       \<and> (\<forall>obj_key ex pr final e s w.
            merge_and_validate_tags ex pr (map fst (cfg_tags (tagger_config self)))
              (storage_provider_type self) = Inr final
            \<and> set_object_tags (storage_provider self) obj_key final (world s) = (Inl e, w) \<longrightarrow>
            fst (apply_object self obj_key ex pr s) =
              \<lparr>existing = ex, proposed = Some pr, applied = None,
               skipped_reason = Some (str ''Failed to apply tags: '' @ exc_str (lib self) e)\<rparr>)"
proof -
  from assms obtain pmode where run: "process_objects self pmode mb st = (Inr result, st')"
    by (auto simp: preview_tags_def apply_tags_def)
  have "\<forall>(uri, t) \<in> set (results result).
            (applied t \<noteq> None \<longrightarrow> skipped_reason t = None \<and> proposed t \<noteq> None)
            \<and> (skipped_reason t \<noteq> None \<longrightarrow> applied t = None)"
    using run
  proof (cases rule: process_objects_cases)
    case (listing_failed e w)
    then show ?thesis by simp
  next
    case (no_objects w)
    then show ?thesis by simp
  next
    case (processed objs w result' pmb)
    have step: "(applied t \<noteq> None \<longrightarrow> skipped_reason t = None \<and> proposed t \<noteq> None)
            \<and> (skipped_reason t \<noteq> None \<longrightarrow> applied t = None)"
      if "process_object self pmode pmb k s = (t, s')" for k s t s'
      using process_object_shape [OF that] by auto
    have "\<forall>(uri, t) \<in> set (results result').
            (applied t \<noteq> None \<longrightarrow> skipped_reason t = None \<and> proposed t \<noteq> None)
            \<and> (skipped_reason t \<noteq> None \<longrightarrow> applied t = None)"
      by (rule process_loop_records [OF step processed(3)]) simp_all
    then show ?thesis using processed(4) by simp
  qed
  moreover have "\<forall>obj_key ex pr e s.
            merge_and_validate_tags ex pr (map fst (cfg_tags (tagger_config self)))
              (storage_provider_type self) = Inl e \<longrightarrow>
            apply_object self obj_key ex pr s =
              (\<lparr>existing = ex, proposed = Some pr, applied = None,
                skipped_reason = Some (str ''Failed to apply tags: '' @ exc_str (lib self) e)\<rparr>, s)"
    by (intro allI impI) (rule apply_object_failure)
  moreover have "\<forall>obj_key ex pr final e s w.
            merge_and_validate_tags ex pr (map fst (cfg_tags (tagger_config self)))
              (storage_provider_type self) = Inr final
            \<and> set_object_tags (storage_provider self) obj_key final (world s) = (Inl e, w) \<longrightarrow>
            fst (apply_object self obj_key ex pr s) =
              \<lparr>existing = ex, proposed = Some pr, applied = None,
               skipped_reason = Some (str ''Failed to apply tags: '' @ exc_str (lib self) e)\<rparr>"
    by (intro allI impI, elim conjE) (rule apply_object_write_failure, assumption+)
  ultimately show ?thesis by (intro conjI)
qed

theorem object_records_invariant_witness:
  "\<exists>result st'. apply_tags (example_tagger example_objects) None start_state = (Inr result, st')
     \<and> list_all (\<lambda>(uri, t).
            (applied t \<noteq> None \<longrightarrow> skipped_reason t = None \<and> proposed t \<noteq> None)
            \<and> (skipped_reason t \<noteq> None \<longrightarrow> applied t = None)) (results result)
     \<and> map (\<lambda>(uri, t). (proposed t \<noteq> None, applied t \<noteq> None, skipped_reason t \<noteq> None))
          (results result)
        = [(True, True, False), (False, False, True), (False, False, True), (True, False, True)]"
proof -
  have "\<exists>result st'. apply_tags (example_tagger example_objects) None start_state = (Inr result, st')
     \<and> map (\<lambda>(uri, t). (proposed t \<noteq> None, applied t \<noteq> None, skipped_reason t \<noteq> None))
          (results result)
        = [(True, True, False), (False, False, True), (False, False, True), (True, False, True)]"
    by (simp add: run_eval)
  then obtain result st' where
    run: "apply_tags (example_tagger example_objects) None start_state = (Inr result, st')"
    and shape: "map (\<lambda>(uri, t). (proposed t \<noteq> None, applied t \<noteq> None, skipped_reason t \<noteq> None))
          (results result)
        = [(True, True, False), (False, False, True), (False, False, True), (True, False, True)]"
    by (elim exE conjE)
  from run have "preview_tags (example_tagger example_objects) None start_state = (Inr result, st')
      \<or> apply_tags (example_tagger example_objects) None start_state = (Inr result, st')"
    by simp
  from object_records_invariant [OF this]
  have "list_all (\<lambda>(uri, t).
            (applied t \<noteq> None \<longrightarrow> skipped_reason t = None \<and> proposed t \<noteq> None)
            \<and> (skipped_reason t \<noteq> None \<longrightarrow> applied t = None)) (results result)"
    by (simp add: list_all_iff)
  with run shape show ?thesis by (intro exI conjI)
qed

text \<open>The float \<open>1 / 3\<close> is not the third: it is \<open>6004799503160661 / 2^54\<close>.\<close>

lemma py_truediv_third:
  "py_truediv 1 3 = 6004799503160661 / 18014398509481984"
  "py_truediv 1 3 \<noteq> 1 / 3"
  "py_truediv 2 4 = 1 / 2"
  by (simp_all add: py_truediv_def bit_length.simps Let_def)

text \<open>
  C8 (as amended). A run whose enumeration yields at least one object returns a result
  whose summary holds the counts: total (the number of records), processed (records with
  proposed tags), skipped (records with a skip reason), applied (records with applied
  tags), and the success rate, the float \<open>processed / total\<close> (the double nearest to the
  quotient), where total is positive. A run whose enumeration yields no object returns a
  result without records whose summary holds the message \<open>No objects found in bucket\<close>
  and no counts.
\<close>

theorem run_summary_counts:
  assumes "list_objects (storage_provider self) (world st) = (Inr objects, w)"
  shows "\<exists>result st'. process_objects self pmode mb st = (Inr result, st')
     \<and> (objects \<noteq> [] \<longrightarrow>
          0 < length (results result)
          \<and> summary result = Summary_stats
              \<lparr>total_objects = length (results result),
               processed = length (filter (\<lambda>(uri, t). proposed t \<noteq> None) (results result)),
               skipped = length (filter (\<lambda>(uri, t). skipped_reason t \<noteq> None) (results result)),
               applied_count = length (filter (\<lambda>(uri, t). applied t \<noteq> None) (results result)),
               success_rate =
                 py_truediv
                   (length (filter (\<lambda>(uri, t). proposed t \<noteq> None) (results result)))
                   (length (results result))\<rparr>)
     \<and> (objects = [] \<longrightarrow>
          results result = []
          \<and> summary result = Summary_message (str ''No objects found in bucket''))"
proof -
  obtain r st' where run: "process_objects self pmode mb st = (r, st')"
    by (cases "process_objects self pmode mb st")
  from run show ?thesis
  proof (cases rule: process_objects_cases)
    case (listing_failed e w')
    with assms show ?thesis by simp
  next
    case (no_objects w')
    with assms run show ?thesis by simp
  next
    case (processed objs w' result' pmb)
    with assms have o: "objs = objects" by simp
    have "set (map fst (results result')) = set objects"
      using process_loop_keys [OF processed(3)] o by simp
    then have "results result' \<noteq> []" using processed(2) o by auto
    then show ?thesis
      using run processed(2,4) o by (simp add: get_summary_stats_def Let_def)
  qed
qed

theorem run_summary_counts_witness:
  "list_objects (storage_provider (example_tagger example_objects)) (world start_state)
     = (Inr example_objects, ())
   \<and> example_objects \<noteq> []
   \<and> (\<exists>result st'.
         process_objects (example_tagger example_objects) PREVIEW None start_state
           = (Inr result, st')
         \<and> summary result = Summary_stats
              \<lparr>total_objects = length (results result),
               processed = length (filter (\<lambda>(uri, t). proposed t \<noteq> None) (results result)),
               skipped = length (filter (\<lambda>(uri, t). skipped_reason t \<noteq> None) (results result)),
               applied_count = length (filter (\<lambda>(uri, t). applied t \<noteq> None) (results result)),
               success_rate =
                 py_truediv
                   (length (filter (\<lambda>(uri, t). proposed t \<noteq> None) (results result)))
                   (length (results result))\<rparr>)
   \<and> (\<exists>result st'.
         process_objects (example_tagger example_objects) PREVIEW None start_state
           = (Inr result, st')
         \<and> summary result = Summary_stats
              \<lparr>total_objects = 4, processed = 2, skipped = 2, applied_count = 0,
               success_rate = 1 / 2\<rparr>)
   \<and> (\<exists>result st'.
         process_objects (example_tagger [str ''a.txt'', str ''b.png'', str ''c.png''])
           PREVIEW None start_state = (Inr result, st')
         \<and> summary result = Summary_stats
              \<lparr>total_objects = 3, processed = 1, skipped = 2, applied_count = 0,
               success_rate = 6004799503160661 / 18014398509481984\<rparr>)"
proof -
  let ?T = "example_tagger example_objects"
  have l: "list_objects (storage_provider ?T) (world start_state) = (Inr example_objects, ())"
    by (simp add: run_eval)
  have n: "example_objects \<noteq> []" by (simp add: example_objects_def)
  have c: "\<exists>result st'. process_objects ?T PREVIEW None start_state = (Inr result, st')
         \<and> summary result = Summary_stats
              \<lparr>total_objects = length (results result),
               processed = length (filter (\<lambda>(uri, t). proposed t \<noteq> None) (results result)),
               skipped = length (filter (\<lambda>(uri, t). skipped_reason t \<noteq> None) (results result)),
               applied_count = length (filter (\<lambda>(uri, t). applied t \<noteq> None) (results result)),
               success_rate =
                 py_truediv
                   (length (filter (\<lambda>(uri, t). proposed t \<noteq> None) (results result)))
                   (length (results result))\<rparr>"
    using run_summary_counts [OF l, of PREVIEW None] n by blast
  have v: "\<exists>result st'. process_objects ?T PREVIEW None start_state = (Inr result, st')
         \<and> summary result = Summary_stats
              \<lparr>total_objects = 4, processed = 2, skipped = 2, applied_count = 0,
               success_rate = 1 / 2\<rparr>"
    by (simp add: run_eval py_truediv_def bit_length.simps)
  have t: "\<exists>result st'.
         process_objects (example_tagger [str ''a.txt'', str ''b.png'', str ''c.png''])
           PREVIEW None start_state = (Inr result, st')
         \<and> summary result = Summary_stats
              \<lparr>total_objects = 3, processed = 1, skipped = 2, applied_count = 0,
               success_rate = 6004799503160661 / 18014398509481984\<rparr>"
    by (simp add: run_eval py_truediv_def bit_length.simps)
  show ?thesis by (intro conjI) (rule l, rule n, rule c, rule v, rule t)
qed

text \<open>
  C8 as stated fails for a run over an empty bucket: the summary of its result is the
  message, and holds no count.
\<close>

theorem run_summary_empty_bucket_counterexample:
  "process_objects (example_tagger []) PREVIEW None start_state
     = (Inr \<lparr>mode = PREVIEW, config = tagger_config (example_tagger []), results = [],
             summary = Summary_message (str ''No objects found in bucket'')\<rparr>,
        start_state)"
  by (simp add: run_eval)

text \<open>The rate 0 for no record is in \<open>get_summary_stats\<close>, which a run never calls so.\<close>

lemma get_summary_stats_no_records:
  "results result = [] \<Longrightarrow>
   get_summary_stats result =
     \<lparr>total_objects = 0, processed = 0, skipped = 0, applied_count = 0, success_rate = 0\<rparr>"
  by (simp add: get_summary_stats_def)

end
